theory Spec2Isabelle
  imports Complex_Main "HOL-Library.Log_Nat" "HOL-Library.Sublist"
begin

section \<open>JavaScript values used by the program\<close>

subsection \<open>Numbers (IEEE 754 binary64)\<close>

text \<open>
  A JavaScript \<^verbatim>\<open>number\<close> is a binary64 value. A finite one is carried as the rational it
  denotes; every arithmetic operator computes the exact rational result and rounds it to
  the nearest binary64 value, ties to even (\<open>fl\<close>), overflowing to an infinity. Zero is
  unsigned here: no operation of the modelled code divides by a zero or prints one.
\<close>

datatype js_number = Fin rat | PosInf | NegInf | NaN

datatype js_error = RangeError | SyntaxError

text \<open>\<open>ilog2 a\<close> is the binary exponent of a positive rational: \<open>2^e \<le> a < 2^(e+1)\<close>.\<close>

definition ilog2 :: "rat \<Rightarrow> int" where
  "ilog2 a = (if 1 \<le> a then bitlen \<lfloor>a\<rfloor> - 1 else - bitlen (\<lceil>1 / a\<rceil> - 1))"

definition round_half_even :: "rat \<Rightarrow> int" where
  "round_half_even x =
     (let f = \<lfloor>x\<rfloor>; d = x - of_int f
      in if d < 1 / 2 then f else if 1 / 2 < d then f + 1 else if even f then f else f + 1)"

text \<open>
  Rounding to binary64: 53 significant bits for normal values, a fixed quantum of
  \<open>2^-1074\<close> in the subnormal range, and an infinity once the rounded value reaches
  \<open>2^1024\<close>.
\<close>

definition fl :: "rat \<Rightarrow> js_number" where
  "fl r =
     (if r = 0 then Fin 0
      else
        let a = \<bar>r\<bar>;
            q = max (ilog2 a - 52) (- 1074);
            v = of_int (round_half_even (a / 2 powi q)) * 2 powi q
        in if 2 ^ 1024 \<le> v then (if 0 < r then PosInf else NegInf)
           else Fin (if 0 < r then v else - v))"

text \<open>A decimal literal of the source denotes the binary64 value nearest to it.\<close>

definition js_lit :: "rat \<Rightarrow> js_number" where
  "js_lit r = fl r"

fun js_sgn :: "js_number \<Rightarrow> int" where
  "js_sgn (Fin r) = (if r < 0 then - 1 else if r = 0 then 0 else 1)"
| "js_sgn PosInf = 1"
| "js_sgn NegInf = - 1"
| "js_sgn NaN = 0"

definition inf_of_sign :: "int \<Rightarrow> js_number" where
  "inf_of_sign s = (if s = 0 then NaN else if 0 < s then PosInf else NegInf)"

text \<open>The operator \<^verbatim>\<open>*\<close> on numbers.\<close>

fun js_times :: "js_number \<Rightarrow> js_number \<Rightarrow> js_number" where
  "js_times NaN y = NaN"
| "js_times x NaN = NaN"
| "js_times (Fin a) (Fin b) = fl (a * b)"
| "js_times x y = inf_of_sign (js_sgn x * js_sgn y)"

text \<open>The operator \<^verbatim>\<open>/\<close> on numbers; a zero divisor is taken as \<open>+0\<close>.\<close>

fun js_divide :: "js_number \<Rightarrow> js_number \<Rightarrow> js_number" where
  "js_divide NaN y = NaN"
| "js_divide x NaN = NaN"
| "js_divide (Fin a) (Fin b) = (if b = 0 then inf_of_sign (js_sgn (Fin a)) else fl (a / b))"
| "js_divide (Fin a) y = Fin 0"
| "js_divide x (Fin b) = inf_of_sign (js_sgn x * (if b < 0 then - 1 else 1))"
| "js_divide x y = NaN"

text \<open>The comparison \<^verbatim>\<open>x <= y\<close>: false as soon as one side is \<^verbatim>\<open>NaN\<close>.\<close>

fun js_le :: "js_number \<Rightarrow> js_number \<Rightarrow> bool" where
  "js_le NaN y = False"
| "js_le x NaN = False"
| "js_le NegInf y = True"
| "js_le x PosInf = True"
| "js_le (Fin a) (Fin b) = (a \<le> b)"
| "js_le x y = False"

fun Number_isFinite :: "js_number \<Rightarrow> bool" where
  "Number_isFinite (Fin r) = True"
| "Number_isFinite x = False"

fun Math_floor :: "js_number \<Rightarrow> js_number" where
  "Math_floor (Fin r) = Fin (of_int \<lfloor>r\<rfloor>)"
| "Math_floor x = x"

text \<open>\<^verbatim>\<open>Math.round\<close> rounds to the nearest integer, halves towards \<open>+\<infinity>\<close>.\<close>

fun Math_round :: "js_number \<Rightarrow> js_number" where
  "Math_round (Fin r) = Fin (of_int \<lfloor>r + 1 / 2\<rfloor>)"
| "Math_round x = x"

text \<open>\<^verbatim>\<open>Number(b)\<close> for a bigint \<open>b\<close>.\<close>

definition Number_of_bigint :: "int \<Rightarrow> js_number" where
  "Number_of_bigint i = fl (of_int i)"

text \<open>\<^verbatim>\<open>BigInt(x)\<close> for a number \<open>x\<close>: a \<^verbatim>\<open>RangeError\<close> unless \<open>x\<close> is an integer.\<close>

fun BigInt_of_number :: "js_number \<Rightarrow> js_error + int" where
  "BigInt_of_number (Fin r) = (if of_int \<lfloor>r\<rfloor> = r then Inr \<lfloor>r\<rfloor> else Inl RangeError)"
| "BigInt_of_number x = Inl RangeError"

text \<open>Division of bigints truncates towards zero; the divisor is never zero where it is used.\<close>

definition bigint_div :: "int \<Rightarrow> int \<Rightarrow> int" where
  "bigint_div a b = sgn a * sgn b * (\<bar>a\<bar> div \<bar>b\<bar>)"

subsection \<open>Strings\<close>

text \<open>
  A string is the list of its code units, each below 256 (ASCII and the Latin-1 range):
  this covers hexadecimal call data, addresses and decimal amounts. On such strings
  \<^verbatim>\<open>toLowerCase\<close> maps \<^verbatim>\<open>A\<close>-\<^verbatim>\<open>Z\<close> and the Latin-1 capitals \<open>0xC0\<close>-\<open>0xDE\<close> (but not the sign
  \<open>0xD7\<close>) to the code unit \<open>0x20\<close> above them and leaves every other code unit as it is,
  and the white space that \<^verbatim>\<open>BigInt(string)\<close> trims is tab, line feed, vertical tab, form
  feed, carriage return, space and the no-break space \<open>0xA0\<close>.
\<close>

primrec index_of :: "char \<Rightarrow> string \<Rightarrow> nat option" where
  "index_of c [] = None"
| "index_of c (x # xs) = (if c = x then Some 0 else map_option Suc (index_of c xs))"

definition lower_char :: "char \<Rightarrow> char" where
  "lower_char c =
     (case index_of c
             (''ABCDEFGHIJKLMNOPQRSTUVWXYZ'' @
              [CHR 0xC0, CHR 0xC1, CHR 0xC2, CHR 0xC3, CHR 0xC4, CHR 0xC5, CHR 0xC6, CHR 0xC7,
               CHR 0xC8, CHR 0xC9, CHR 0xCA, CHR 0xCB, CHR 0xCC, CHR 0xCD, CHR 0xCE, CHR 0xCF,
               CHR 0xD0, CHR 0xD1, CHR 0xD2, CHR 0xD3, CHR 0xD4, CHR 0xD5, CHR 0xD6,
               CHR 0xD8, CHR 0xD9, CHR 0xDA, CHR 0xDB, CHR 0xDC, CHR 0xDD, CHR 0xDE]) of
        Some i \<Rightarrow>
          (''abcdefghijklmnopqrstuvwxyz'' @
           [CHR 0xE0, CHR 0xE1, CHR 0xE2, CHR 0xE3, CHR 0xE4, CHR 0xE5, CHR 0xE6, CHR 0xE7,
            CHR 0xE8, CHR 0xE9, CHR 0xEA, CHR 0xEB, CHR 0xEC, CHR 0xED, CHR 0xEE, CHR 0xEF,
            CHR 0xF0, CHR 0xF1, CHR 0xF2, CHR 0xF3, CHR 0xF4, CHR 0xF5, CHR 0xF6,
            CHR 0xF8, CHR 0xF9, CHR 0xFA, CHR 0xFB, CHR 0xFC, CHR 0xFD, CHR 0xFE]) ! i
      | None \<Rightarrow> c)"

definition toLowerCase :: "string \<Rightarrow> string" where
  "toLowerCase s = map lower_char s"

definition startsWith :: "string \<Rightarrow> string \<Rightarrow> bool" where
  "startsWith s p = prefix p s"

definition js_includes :: "string \<Rightarrow> string \<Rightarrow> bool" where
  "js_includes s p = sublist p s"

definition is_ws :: "char \<Rightarrow> bool" where
  "is_ws c = (c \<in> set [CHR '' '', CHR 0x09, CHR 0x0A, CHR 0x0B, CHR 0x0C, CHR 0x0D, CHR 0xA0])"

definition trim :: "string \<Rightarrow> string" where
  "trim s = rev (dropWhile is_ws (rev (dropWhile is_ws s)))"

definition digit_value :: "nat \<Rightarrow> char \<Rightarrow> nat option" where
  "digit_value base c =
     (case index_of (lower_char c) ''0123456789abcdef'' of
        Some d \<Rightarrow> if d < base then Some d else None
      | None \<Rightarrow> None)"

primrec parse_digits :: "nat \<Rightarrow> nat \<Rightarrow> string \<Rightarrow> nat option" where
  "parse_digits base acc [] = Some acc"
| "parse_digits base acc (c # cs) =
     (case digit_value base c of
        None \<Rightarrow> None
      | Some d \<Rightarrow> parse_digits base (acc * base + d) cs)"

definition parse_nat :: "nat \<Rightarrow> string \<Rightarrow> nat option" where
  "parse_nat base s = (if s = [] then None else parse_digits base 0 s)"

definition radix_prefix :: "string \<Rightarrow> (nat \<times> string) option" where
  "radix_prefix t =
     (case t of
        c1 # c2 # rest \<Rightarrow>
          if c1 \<noteq> CHR ''0'' then None
          else if c2 = CHR ''x'' \<or> c2 = CHR ''X'' then Some (16, rest)
          else if c2 = CHR ''o'' \<or> c2 = CHR ''O'' then Some (8, rest)
          else if c2 = CHR ''b'' \<or> c2 = CHR ''B'' then Some (2, rest)
          else None
      | _ \<Rightarrow> None)"

definition int_result :: "nat option \<Rightarrow> bool \<Rightarrow> js_error + int" where
  "int_result r neg =
     (case r of None \<Rightarrow> Inl SyntaxError | Some n \<Rightarrow> Inr (if neg then - int n else int n))"

text \<open>
  \<^verbatim>\<open>BigInt(s)\<close> for a string: white space is trimmed, the empty string is \<open>0\<close>, a
  \<^verbatim>\<open>0x\<close>, \<^verbatim>\<open>0o\<close> or \<^verbatim>\<open>0b\<close> prefix selects the radix (no sign allowed), anything else is
  an optionally signed run of decimal digits; every other text is a \<^verbatim>\<open>SyntaxError\<close>.
\<close>

definition BigInt_of_string :: "string \<Rightarrow> js_error + int" where
  "BigInt_of_string str =
     (let t = trim str
      in if t = [] then Inr 0
         else case radix_prefix t of
                Some (b, rest) \<Rightarrow> int_result (parse_nat b rest) False
              | None \<Rightarrow>
                  (case t of
                     c # ds \<Rightarrow>
                       if c = CHR ''-'' then int_result (parse_nat 10 ds) True
                       else if c = CHR ''+'' then int_result (parse_nat 10 ds) False
                       else int_result (parse_nat 10 t) False
                   | [] \<Rightarrow> Inr 0))"

fun nat_digits :: "nat \<Rightarrow> string" where
  "nat_digits n =
     (if n < 10 then [''0123456789'' ! n]
      else nat_digits (n div 10) @ [''0123456789'' ! (n mod 10)])"

declare nat_digits.simps [simp del]

text \<open>\<^verbatim>\<open>String(b)\<close> for a bigint: its decimal digits, with a minus sign when negative.\<close>

definition String_of_bigint :: "int \<Rightarrow> string" where
  "String_of_bigint i =
     (if i < 0 then CHR ''-'' # nat_digits (nat (- i)) else nat_digits (nat i))"

section \<open>Copy intent calculator (src/copy/calculator.ts, src/copy/types.ts)\<close>

datatype trade_side = BUY | SELL | UNKNOWN

text \<open>The \<^verbatim>\<open>Side\<close> enumeration of the order client.\<close>

datatype Side = Side_BUY | Side_SELL

datatype order_type = FAK | FOK | GTC | GTD

record CopyConfig =
  scale :: js_number
  slippageBps :: js_number
  orderType :: order_type
  simulateOnly :: bool
  allowBuy :: bool
  allowSell :: bool

record CopyFill =
  fill_hash :: "string option"
  fill_tokenId :: string
  fill_side :: trade_side
  fill_shares :: "string option"
  fill_usdc :: "string option"

record CopyIntent =
  intent_tokenId :: string
  intent_side :: Side
  intent_size :: js_number
  intent_price :: js_number
  intent_impliedPrice :: js_number
  intent_notional :: js_number
  intent_hash :: "string option"

definition SCALE :: int where
  "SCALE = 1000000"

definition toBigInt :: "string option \<Rightarrow> int option" where
  "toBigInt v =
     (case v of
        None \<Rightarrow> None
      | Some s \<Rightarrow>
          if s = [] then None
          else (case BigInt_of_string s of Inl e \<Rightarrow> None | Inr b \<Rightarrow> Some b))"

definition applyScale :: "int \<Rightarrow> js_number \<Rightarrow> js_error + int" where
  "applyScale v sc =
     (case BigInt_of_number (Math_floor (js_times sc (Number_of_bigint SCALE))) of
        Inl e \<Rightarrow> Inl e
      | Inr scaled \<Rightarrow> Inr (bigint_div (v * scaled) SCALE))"

definition applySlippage :: "int \<Rightarrow> js_number \<Rightarrow> trade_side \<Rightarrow> js_error + int" where
  "applySlippage priceMicros bpsNum sd =
     (case BigInt_of_number bpsNum of
        Inl e \<Rightarrow> Inl e
      | Inr bps \<Rightarrow>
          (let delta = bigint_div (priceMicros * bps) 10000
           in Inr (case sd of
                     BUY \<Rightarrow> priceMicros + delta
                   | SELL \<Rightarrow> priceMicros - delta
                   | UNKNOWN \<Rightarrow> priceMicros)))"

text \<open>
  \<open>Inl\<close> is an exception leaving the function, \<open>Inr None\<close> the result \<^verbatim>\<open>null\<close>,
  \<open>Inr (Some i)\<close> an intent. A bigint is falsy exactly when it is \<open>0\<close>, so
  \<^verbatim>\<open>!shares || shares <= 0n\<close> holds for \<^verbatim>\<open>null\<close> and for every value \<open>\<le> 0\<close>.
\<close>

definition buildCopyIntent :: "CopyFill \<Rightarrow> CopyConfig \<Rightarrow> js_error + CopyIntent option" where
  "buildCopyIntent fill config =
     (if js_le (scale config) (Fin 0) then Inr None
      else if fill_side fill = BUY \<and> \<not> allowBuy config then Inr None
      else if fill_side fill = SELL \<and> \<not> allowSell config then Inr None
      else
        case (toBigInt (fill_shares fill), toBigInt (fill_usdc fill)) of
          (Some shares, Some usdc) \<Rightarrow>
            if shares \<le> 0 \<or> usdc \<le> 0 then Inr None
            else
              (case applyScale shares (scale config) of
                 Inl e \<Rightarrow> Inl e
               | Inr copyShares \<Rightarrow>
                   (case applyScale usdc (scale config) of
                      Inl e \<Rightarrow> Inl e
                    | Inr copyUsdc \<Rightarrow>
                        if copyShares \<le> 0 \<or> copyUsdc \<le> 0 then Inr None
                        else
                          (let priceMicros = bigint_div (usdc * SCALE) shares
                           in case applySlippage priceMicros (slippageBps config) (fill_side fill) of
                                Inl e \<Rightarrow> Inl e
                              | Inr limitMicros \<Rightarrow>
                                  if limitMicros \<le> 0 then Inr None
                                  else
                                    Inr (Some
                                      \<lparr>intent_tokenId = fill_tokenId fill,
                                       intent_side =
                                         (if fill_side fill = SELL then Side_SELL else Side_BUY),
                                       intent_size =
                                         js_divide (Number_of_bigint copyShares) (Number_of_bigint SCALE),
                                       intent_price =
                                         js_divide (Number_of_bigint limitMicros) (Number_of_bigint SCALE),
                                       intent_impliedPrice =
                                         js_divide (Number_of_bigint priceMicros) (Number_of_bigint SCALE),
                                       intent_notional =
                                         js_divide (Number_of_bigint copyUsdc) (Number_of_bigint SCALE),
                                       intent_hash = fill_hash fill\<rparr>))))
        | _ \<Rightarrow> Inr None)"

section \<open>Calldata decoder (src/onchain/decoder.ts)\<close>

datatype js_unknown = JsString string | JsNonString

definition MATCH_SELECTOR :: string where
  "MATCH_SELECTOR = ''0x2287e350''"

text \<open>
  \<^verbatim>\<open>!rawData\<close> holds for the empty string and for the falsy non-strings; every non-string
  is rejected by the \<^verbatim>\<open>typeof\<close> test in any case.
\<close>

definition matchesCalldata :: "js_unknown \<Rightarrow> string \<Rightarrow> string \<Rightarrow> bool" where
  "matchesCalldata rawData needle selector =
     (case rawData of
        JsNonString \<Rightarrow> False
      | JsString raw \<Rightarrow>
          if raw = [] then False
          else
            (let data = toLowerCase raw
             in if \<not> startsWith data selector then False
                else js_includes data (toLowerCase needle)))"

text \<open>
  An order leg as the decoder reads it: a \<^verbatim>\<open>Record<string, unknown>\<close> of which six fields
  are used, each possibly absent. \<open>side\<close> is the \<^verbatim>\<open>uint8\<close> of the ABI as a number.
\<close>

record order =
  maker :: "string option"
  signer :: "string option"
  tokenId :: "int option"
  makerAmount :: "int option"
  takerAmount :: "int option"
  side :: "int option"

record match_args =
  takerOrder :: order
  makerOrders :: "order list"
  takerFillAmount :: "int option"
  takerReceiveAmount :: "int option"
  makerFillAmounts :: "int list"
  takerFeeAmount :: "int option"
  makerFeeAmounts :: "int list"

record MatchDecoded =
  functionName :: string
  args :: "match_args option"

datatype role = MAKER | TAKER | ROLE_UNKNOWN

record FillBreakdown =
  fb_role :: role
  fb_side :: trade_side
  fb_tokenId :: "string option"
  fb_shares :: "string option"
  fb_usdc :: "string option"

text \<open>The object \<^verbatim>\<open>{}\<close> that stands in for a missing taker order.\<close>

definition empty_order :: order where
  "empty_order = \<lparr>maker = None, signer = None, tokenId = None, makerAmount = None,
                   takerAmount = None, side = None\<rparr>"

text \<open>\<^verbatim>\<open>safeBigInt\<close>: \<^verbatim>\<open>null\<close> for a missing value, the value itself for a bigint.\<close>

definition safeBigInt :: "int option \<Rightarrow> int option" where
  "safeBigInt v = (case v of None \<Rightarrow> None | Some b \<Rightarrow> Some b)"

text \<open>Truthiness of a \<^verbatim>\<open>bigint | null\<close>: \<^verbatim>\<open>null\<close> and \<^verbatim>\<open>0n\<close> are falsy.\<close>

definition truthy :: "int option \<Rightarrow> bool" where
  "truthy v = (case v of None \<Rightarrow> False | Some b \<Rightarrow> b \<noteq> 0)"

definition computeMakerFill :: "order \<Rightarrow> int \<Rightarrow> int option \<times> int option" where
  "computeMakerFill ord fillAmount =
     (case (safeBigInt (makerAmount ord), safeBigInt (takerAmount ord)) of
        (Some mA, Some tA) \<Rightarrow>
          if mA = 0 \<or> tA = 0 then
            (if side ord = Some 1 then Some fillAmount else None,
             if side ord = Some 0 then Some fillAmount else None)
          else if side ord = Some 0 then
            (Some (bigint_div (fillAmount * tA) mA), Some fillAmount)
          else if side ord = Some 1 then
            (Some fillAmount, Some (bigint_div (fillAmount * tA) mA))
          else (None, None)
      | _ \<Rightarrow>
          (if side ord = Some 1 then Some fillAmount else None,
           if side ord = Some 0 then Some fillAmount else None))"

text \<open>\<^verbatim>\<open>x?.toLowerCase() === target\<close> for an optional string field.\<close>

definition field_is :: "string option \<Rightarrow> string \<Rightarrow> bool" where
  "field_is f target = (case f of None \<Rightarrow> False | Some s \<Rightarrow> toLowerCase s = target)"

text \<open>Reading an array past its end gives \<^verbatim>\<open>undefined\<close>.\<close>

definition at_index :: "'a list \<Rightarrow> nat \<Rightarrow> 'a option" where
  "at_index xs i = (if i < length xs then Some (xs ! i) else None)"

definition makerMatches :: "order list \<Rightarrow> string \<Rightarrow> (order \<times> nat) list" where
  "makerMatches orders target =
     filter (\<lambda>entry. field_is (maker (fst entry)) target \<or> field_is (signer (fst entry)) target)
       (zip orders [0..<length orders])"

text \<open>The loop over the matching maker legs, with its two running sums.\<close>

fun makerSums :: "(order \<times> nat) list \<Rightarrow> int list \<Rightarrow> int \<times> int \<Rightarrow> int \<times> int" where
  "makerSums [] fills acc = acc"
| "makerSums (entry # rest) fills acc =
     (case safeBigInt (at_index fills (snd entry)) of
        None \<Rightarrow> makerSums rest fills acc
      | Some fill \<Rightarrow>
          (let su = computeMakerFill (fst entry) fill
           in makerSums rest fills
                (case fst su of None \<Rightarrow> fst acc | Some s \<Rightarrow> fst acc + s,
                 case snd su of None \<Rightarrow> snd acc | Some u \<Rightarrow> snd acc + u)))"

text \<open>
  The amount derived from the taker order when \<^verbatim>\<open>takerReceiveAmount\<close> is missing:
  \<^verbatim>\<open>fill && makerAmount && takerAmount && makerAmount !== 0n ? fill * takerAmount / makerAmount : undefined\<close>.
\<close>

definition takerDerived :: "int option \<Rightarrow> int option \<Rightarrow> int option \<Rightarrow> int option" where
  "takerDerived fill mA tA =
     (case (fill, mA, tA) of
        (Some f, Some m, Some t) \<Rightarrow>
          if truthy fill \<and> truthy mA \<and> truthy tA \<and> m \<noteq> 0 then Some (bigint_div (f * t) m)
          else None
      | _ \<Rightarrow> None)"

text \<open>The block \<^verbatim>\<open>if (role === "TAKER")\<close>: the pair \<open>(shares, usdc)\<close> it assigns.\<close>

definition takerFill ::
  "trade_side \<Rightarrow> order \<Rightarrow> int option \<Rightarrow> int option \<Rightarrow> int option \<times> int option" where
  "takerFill sd tOrder takerFillAmt takerReceiveAmt =
     (let mA = safeBigInt (makerAmount tOrder);
          tA = safeBigInt (takerAmount tOrder);
          fill = safeBigInt takerFillAmt;
          receive = safeBigInt takerReceiveAmt;
          other = (case receive of Some r \<Rightarrow> Some r | None \<Rightarrow> takerDerived fill mA tA)
      in case sd of
           BUY \<Rightarrow> (other, fill)
         | SELL \<Rightarrow> (fill, other)
         | UNKNOWN \<Rightarrow> (None, None))"

definition computeFillForTarget :: "MatchDecoded option \<Rightarrow> string \<Rightarrow> FillBreakdown option" where
  "computeFillForTarget decoded targetAddress =
     (case decoded of
        None \<Rightarrow> None
      | Some d \<Rightarrow>
          if functionName d \<noteq> ''matchOrders'' then None
          else
            (let target = toLowerCase targetAddress;
                 tOrder = (case args d of None \<Rightarrow> empty_order | Some a \<Rightarrow> takerOrder a);
                 mOrders = (case args d of None \<Rightarrow> [] | Some a \<Rightarrow> makerOrders a);
                 takerFillAmt = (case args d of None \<Rightarrow> None | Some a \<Rightarrow> takerFillAmount a);
                 takerReceiveAmt = (case args d of None \<Rightarrow> None | Some a \<Rightarrow> takerReceiveAmount a);
                 mFills = (case args d of None \<Rightarrow> [] | Some a \<Rightarrow> makerFillAmounts a);
                 takerRole = (field_is (maker tOrder) target \<or> field_is (signer tOrder) target);
                 matches = makerMatches mOrders target;
                 rl = (if takerRole then TAKER else if matches \<noteq> [] then MAKER else ROLE_UNKNOWN);
                 sd = (if side tOrder = Some 0 then BUY
                       else if side tOrder = Some 1 then SELL else UNKNOWN);
                 su0 = (if rl = TAKER then takerFill sd tOrder takerFillAmt takerReceiveAmt
                        else (None, None));
                 su1 = (if rl = MAKER then
                          (let tot = makerSums matches mFills (0, 0)
                           in (if 0 < fst tot then Some (fst tot) else fst su0,
                               if 0 < snd tot then Some (snd tot) else snd su0))
                        else su0)
             in Some \<lparr>fb_role = rl, fb_side = sd,
                       fb_tokenId = (if truthy (tokenId tOrder)
                                     then map_option String_of_bigint (tokenId tOrder) else None),
                       fb_shares = map_option String_of_bigint (fst su1),
                       fb_usdc = map_option String_of_bigint (snd su1)\<rparr>))"

subsection \<open>The maker role as the specification words it\<close>

text \<open>
  These definitions follow the specification's sentences on the maker role, for comparison
  with \<open>makerSums\<close>: a leg belongs to the target when its maker field or its signer field
  is the target; a BUY leg adds its fill to usdc and \<open>\<lfloor>fill \<sqdot> takerAmount / makerAmount\<rfloor>\<close>
  to shares, a SELL leg the other way round; the totals run over the legs of the target,
  each with the fill at its own index. \<open>reported\<close> is the rule by which a total reaches
  the result: as its decimal string when positive, as \<^verbatim>\<open>undefined\<close> otherwise.
\<close>

definition leg_matches :: "order \<Rightarrow> string \<Rightarrow> bool" where
  "leg_matches ord target = (field_is (maker ord) target \<or> field_is (signer ord) target)"

definition spec_ratio :: "order \<Rightarrow> int \<Rightarrow> int" where
  "spec_ratio ord fill =
     (case (makerAmount ord, takerAmount ord) of
        (Some m, Some t) \<Rightarrow> (fill * t) div m
      | _ \<Rightarrow> 0)"

definition spec_leg_shares :: "order \<Rightarrow> int \<Rightarrow> int" where
  "spec_leg_shares ord fill =
     (if side ord = Some 0 then spec_ratio ord fill else if side ord = Some 1 then fill else 0)"

definition spec_leg_usdc :: "order \<Rightarrow> int \<Rightarrow> int" where
  "spec_leg_usdc ord fill =
     (if side ord = Some 0 then fill else if side ord = Some 1 then spec_ratio ord fill else 0)"

definition spec_maker_total ::
  "(order \<Rightarrow> int \<Rightarrow> int) \<Rightarrow> order list \<Rightarrow> int list \<Rightarrow> string \<Rightarrow> int" where
  "spec_maker_total leg orders fills target =
     (\<Sum>i\<leftarrow>[0..<length orders].
        if i < length fills \<and> leg_matches (orders ! i) target
        then leg (orders ! i) (fills ! i) else 0)"

definition reported :: "int \<Rightarrow> string option" where
  "reported n = (if 0 < n then Some (String_of_bigint n) else None)"

text \<open>What one entry of the loop adds to the two running sums.\<close>

definition code_leg :: "int list \<Rightarrow> (order \<times> nat) \<Rightarrow> int \<times> int" where
  "code_leg fills e =
     (case at_index fills (snd e) of
        None \<Rightarrow> (0, 0)
      | Some f \<Rightarrow>
          (case fst (computeMakerFill (fst e) f) of None \<Rightarrow> 0 | Some s \<Rightarrow> s,
           case snd (computeMakerFill (fst e) f) of None \<Rightarrow> 0 | Some u \<Rightarrow> u))"

subsection \<open>Example calls\<close>

text \<open>
  Hand-built decoded calls for the examples: an order with the given maker, signer, maker
  amount, taker amount and side (token \<open>7\<close>), and a \<^verbatim>\<open>matchOrders\<close> call around them.
\<close>

definition ex_order :: "string \<Rightarrow> string \<Rightarrow> int \<Rightarrow> int \<Rightarrow> int \<Rightarrow> order" where
  "ex_order m s mA tA sd =
     \<lparr>maker = Some m, signer = Some s, tokenId = Some 7,
      makerAmount = Some mA, takerAmount = Some tA, side = Some sd\<rparr>"

definition ex_args ::
  "order \<Rightarrow> order list \<Rightarrow> int option \<Rightarrow> int option \<Rightarrow> int list \<Rightarrow> match_args" where
  "ex_args t ms f r fs =
     \<lparr>takerOrder = t, makerOrders = ms, takerFillAmount = f, takerReceiveAmount = r,
      makerFillAmounts = fs, takerFeeAmount = Some 0, makerFeeAmounts = map (\<lambda>x. 0) fs\<rparr>"

definition ex_call :: "match_args \<Rightarrow> MatchDecoded" where
  "ex_call a = \<lparr>functionName = ''matchOrders'', args = Some a\<rparr>"

section \<open>Recency set of the watcher (src/onchain/watcher.ts, makeHashCache)\<close>

definition HASH_CACHE_SIZE :: nat where
  "HASH_CACHE_SIZE = 1000"

record hash_cache =
  deque :: "string list"
  hset :: "string set"

definition makeHashCache :: hash_cache where
  "makeHashCache = \<lparr>deque = [], hset = {}\<rparr>"

text \<open>
  \<^verbatim>\<open>seen(hash)\<close> returns its answer and the cache after the call. \<^verbatim>\<open>!hash\<close> holds for
  \<^verbatim>\<open>undefined\<close> and for the empty string; \<^verbatim>\<open>shift()\<close> of an empty array gives
  \<^verbatim>\<open>undefined\<close>, for which nothing is deleted.
\<close>

definition seen :: "string option \<Rightarrow> hash_cache \<Rightarrow> bool \<times> hash_cache" where
  "seen hash c =
     (case hash of
        None \<Rightarrow> (False, c)
      | Some h \<Rightarrow>
          if h = [] then (False, c)
          else if h \<in> hset c then (True, c)
          else
            (let d = deque c @ [h]; s = insert h (hset c)
             in if HASH_CACHE_SIZE < length d then
                  (case d of
                     [] \<Rightarrow> (False, \<lparr>deque = d, hset = s\<rparr>)
                   | oldest # rest \<Rightarrow>
                       (False, \<lparr>deque = rest,
                                hset = (if oldest \<noteq> [] then s - {oldest} else s)\<rparr>))
                else (False, \<lparr>deque = d, hset = s\<rparr>)))"

text \<open>Feeding a sequence of hashes to \<^verbatim>\<open>seen\<close>, keeping the last state.\<close>

fun seen_all :: "string list \<Rightarrow> hash_cache \<Rightarrow> hash_cache" where
  "seen_all [] c = c"
| "seen_all (h # hs) c = seen_all hs (snd (seen (Some h) c))"

text \<open>Any sequence of calls of \<^verbatim>\<open>seen\<close>, with or without a hash.\<close>

fun seen_calls :: "string option list \<Rightarrow> hash_cache \<Rightarrow> hash_cache" where
  "seen_calls [] c = c"
| "seen_calls (h # hs) c = seen_calls hs (snd (seen h c))"

text \<open>
  The invariant of the recency set: the set holds exactly the hashes of the deque, which
  are pairwise different, non-empty and at most \<open>HASH_CACHE_SIZE\<close> many.
\<close>

definition cache_inv :: "hash_cache \<Rightarrow> bool" where
  "cache_inv c = (hset c = set (deque c) \<and> distinct (deque c) \<and> [] \<notin> set (deque c)
                  \<and> length (deque c) \<le> HASH_CACHE_SIZE)"

text \<open>Example hashes: \<open>n\<close> different non-empty strings.\<close>

definition ex_hashes :: "nat \<Rightarrow> string list" where
  "ex_hashes n = map (\<lambda>i. replicate (Suc i) CHR ''a'') [0..<n]"

section \<open>Single-flight TTL cache (createTtlCache)\<close>









section \<open>Order placer (src/copy/placer.ts)\<close>

record placer_config =
  clobApiKey :: "string option"
  clobApiSecret :: "string option"
  clobApiPassphrase :: "string option"
  privateKey :: "string option"
  copyOrderType :: order_type
  copySimulateOnly :: bool

record market_order_args =
  mo_tokenID :: string
  mo_amount :: js_number
  mo_side :: Side
  mo_price :: js_number

record limit_order_args =
  lo_tokenID :: string
  lo_price :: js_number
  lo_size :: js_number
  lo_side :: Side

record post_response =
  orderId :: "string option"
  body :: string

text \<open>
  The order client is an external collaborator: its three calls are parameters. \<open>Inl t\<close>
  is a thrown error whose text \<^verbatim>\<open>String(err)\<close> is \<open>t\<close>.
\<close>

record 'o clob_client =
  createMarketOrder :: "market_order_args \<Rightarrow> string + 'o"
  createOrder :: "limit_order_args \<Rightarrow> string + 'o"
  postOrder :: "'o \<Rightarrow> order_type \<Rightarrow> string + post_response"

datatype 'o client_call =
    CreateMarketOrder market_order_args
  | CreateOrder limit_order_args
  | PostOrder 'o order_type

text \<open>\<^verbatim>\<open>orderHash: res?.orderId ?? res\<close>: the order id, or the response when it has none.\<close>

datatype PlaceResult =
    Simulated CopyIntent
  | Posted CopyIntent "string + post_response"
  | Skipped CopyIntent string

record 'o placer =
  enabled :: bool
  client :: "'o clob_client option"
  placer_orderType :: order_type

definition string_truthy :: "string option \<Rightarrow> bool" where
  "string_truthy v = (case v of None \<Rightarrow> False | Some s \<Rightarrow> s \<noteq> [])"

text \<open>
  \<open>wallet\<close> stands for \<^verbatim>\<open>new Wallet(privateKey)\<close> and \<open>mk_client\<close> for the construction of
  the order client; a key the wallet rejects makes the whole construction throw.
\<close>

definition createCopyPlacer ::
  "(string \<Rightarrow> string + 'w) \<Rightarrow> ('w \<Rightarrow> 'o clob_client) \<Rightarrow> placer_config \<Rightarrow> string + 'o placer" where
  "createCopyPlacer wallet mk_client config =
     (let hasApi = (string_truthy (clobApiKey config) \<and> string_truthy (clobApiSecret config)
                    \<and> string_truthy (clobApiPassphrase config));
          made = (case privateKey config of
                    None \<Rightarrow> Inr None
                  | Some k \<Rightarrow>
                      if k = [] then Inr None
                      else (case wallet k of Inl err \<Rightarrow> Inl err | Inr w \<Rightarrow> Inr (Some w)))
      in case made of
           Inl err \<Rightarrow> Inl err
         | Inr wal \<Rightarrow>
             (let hasCreds = (wal \<noteq> None \<and> hasApi);
                  en = (\<not> copySimulateOnly config \<and> hasCreds)
              in Inr \<lparr>enabled = en,
                      client = (case wal of
                                  Some w \<Rightarrow> if en then Some (mk_client w) else None
                                | None \<Rightarrow> None),
                      placer_orderType = copyOrderType config\<rparr>))"

definition roundToDecimals :: "js_number \<Rightarrow> nat \<Rightarrow> js_number" where
  "roundToDecimals v decimals =
     (if \<not> Number_isFinite v then Fin 0
      else
        (let factor = fl (10 ^ decimals)
         in js_divide (Math_round (js_times v factor)) factor))"

definition toOrderType :: "order_type \<Rightarrow> order_type" where
  "toOrderType v = (case v of FOK \<Rightarrow> FOK | GTC \<Rightarrow> GTC | GTD \<Rightarrow> GTD | FAK \<Rightarrow> FAK)"

text \<open>
  The sequence common to the three branches of \<^verbatim>\<open>place\<close>: create the order, post it, and
  build the \<^verbatim>\<open>posted\<close> result. \<open>creation\<close> is the call made and \<open>created\<close> its outcome;
  the order is posted only if its creation returned. \<open>Inl t\<close> is an error thrown on the
  way, paired with the client calls made up to that point.
\<close>

definition create_and_post ::
  "'o clob_client \<Rightarrow> CopyIntent \<Rightarrow> 'o client_call \<Rightarrow> string + 'o \<Rightarrow> order_type
     \<Rightarrow> (string + PlaceResult) \<times> 'o client_call list" where
  "create_and_post cl intent creation created ot =
     (case created of
        Inl err \<Rightarrow> (Inl err, [creation])
      | Inr ord \<Rightarrow>
          (case postOrder cl ord ot of
             Inl err \<Rightarrow> (Inl err, [creation, PostOrder ord ot])
           | Inr res \<Rightarrow>
               (Inr (Posted intent (case orderId res of Some i \<Rightarrow> Inl i | None \<Rightarrow> Inr res)),
                [creation, PostOrder ord ot])))"

text \<open>The body of the \<^verbatim>\<open>try\<close> block.\<close>

definition place_try ::
  "'o clob_client \<Rightarrow> order_type \<Rightarrow> CopyIntent \<Rightarrow> (string + PlaceResult) \<times> 'o client_call list" where
  "place_try cl configured intent =
     (let ot = toOrderType configured;
          isMarket = (ot = FOK \<or> ot = FAK)
      in if isMarket then
           (if intent_side intent = Side_BUY then
              (let amount = roundToDecimals (intent_notional intent) 2
               in if js_le amount (Fin 0) then (Inr (Skipped intent ''amount rounded to zero''), [])
                  else
                    (let a = \<lparr>mo_tokenID = intent_tokenId intent, mo_amount = amount,
                              mo_side = intent_side intent, mo_price = intent_price intent\<rparr>
                     in create_and_post cl intent (CreateMarketOrder a) (createMarketOrder cl a) ot))
            else
              (let amount = roundToDecimals (intent_size intent) 4
               in if js_le amount (Fin 0) then (Inr (Skipped intent ''amount rounded to zero''), [])
                  else
                    (let a = \<lparr>mo_tokenID = intent_tokenId intent, mo_amount = amount,
                              mo_side = intent_side intent, mo_price = intent_price intent\<rparr>
                     in create_and_post cl intent (CreateMarketOrder a) (createMarketOrder cl a) ot)))
         else
           (let price = roundToDecimals (intent_price intent) 4;
                sz = roundToDecimals (intent_size intent) 4
            in if js_le price (Fin 0) \<or> js_le sz (Fin 0)
               then (Inr (Skipped intent ''price/size rounded to zero''), [])
               else
                 (let a = \<lparr>lo_tokenID = intent_tokenId intent, lo_price = price, lo_size = sz,
                           lo_side = intent_side intent\<rparr>
                  in create_and_post cl intent (CreateOrder a) (createOrder cl a) ot)))"

text \<open>
  \<^verbatim>\<open>place(intent)\<close>: its result and the client calls it made. \<open>Inl\<close> would be an exception
  leaving \<^verbatim>\<open>place\<close>; the \<^verbatim>\<open>catch\<close> clause turns every error of the body into a result.
\<close>

definition place ::
  "'o placer \<Rightarrow> CopyIntent \<Rightarrow> (string + PlaceResult) \<times> 'o client_call list" where
  "place p intent =
     (case (if enabled p then client p else None) of
        None \<Rightarrow> (Inr (Simulated intent), [])
      | Some cl \<Rightarrow>
          (case place_try cl (placer_orderType p) intent of
             (Inl err, calls) \<Rightarrow> (Inr (Skipped intent err), calls)
           | (Inr r, calls) \<Rightarrow> (Inr r, calls)))"

subsection \<open>Example placer\<close>

text \<open>
  An intent for 50 of notional, a configuration with every credential present, a wallet
  that accepts every key, and a client whose calls have fixed outcomes.
\<close>

definition ex_intent :: CopyIntent where
  "ex_intent = \<lparr>intent_tokenId = ''7'', intent_side = Side_BUY, intent_size = Fin 100,
                 intent_price = Fin (1 / 2), intent_impliedPrice = Fin (1 / 2),
                 intent_notional = Fin 50, intent_hash = None\<rparr>"

definition ex_config :: "bool \<Rightarrow> placer_config" where
  "ex_config sim = \<lparr>clobApiKey = Some ''key'', clobApiSecret = Some ''secret'',
                     clobApiPassphrase = Some ''pass'', privateKey = Some ''0x01'',
                     copyOrderType = FAK, copySimulateOnly = sim\<rparr>"

definition ex_client :: "string + nat \<Rightarrow> string + post_response \<Rightarrow> nat clob_client" where
  "ex_client created posted =
     \<lparr>createMarketOrder = (\<lambda>a. created), createOrder = (\<lambda>a. created),
      postOrder = (\<lambda>ord ot. posted)\<rparr>"

definition ex_wallet :: "string \<Rightarrow> string + string" where
  "ex_wallet k = Inr k"

section \<open>Facts about binary64 rounding\<close>

text \<open>
  The exponent chosen by \<open>ilog2\<close> is the one that brackets its argument, so \<open>fl\<close> can be
  computed from any exponent and mantissa that satisfy the rounding conditions.
\<close>


lemma ilog2_ge1:
  assumes "1 \<le> a"
  shows "2 powi (ilog2 a) \<le> a \<and> a < 2 powi (ilog2 a + 1)"
proof -
  have fpos: "0 < \<lfloor>a\<rfloor>" using assms by linarith
  from bitlen_bounds[OF fpos] have b: "2 ^ nat (bitlen \<lfloor>a\<rfloor> - 1) \<le> \<lfloor>a\<rfloor>" "\<lfloor>a\<rfloor> < 2 ^ nat (bitlen \<lfloor>a\<rfloor>)"
    by auto
  have bl: "1 \<le> bitlen \<lfloor>a\<rfloor>" using fpos by (auto simp: bitlen_alt_def)
  have "(of_int (2 ^ nat (bitlen \<lfloor>a\<rfloor> - 1)) :: rat) \<le> of_int \<lfloor>a\<rfloor>"
    using b(1) by (simp only: of_int_le_iff)
  also have "\<dots> \<le> a" by simp
  finally have lo: "2 powi (bitlen \<lfloor>a\<rfloor> - 1) \<le> a"
    using bl by (simp add: power_int_def)
  have "\<lfloor>a\<rfloor> + 1 \<le> 2 ^ nat (bitlen \<lfloor>a\<rfloor>)" using b(2) by simp
  then have "(of_int (\<lfloor>a\<rfloor> + 1) :: rat) \<le> of_int (2 ^ nat (bitlen \<lfloor>a\<rfloor>))"
    by (simp only: of_int_le_iff)
  moreover have "a < of_int (\<lfloor>a\<rfloor> + 1)" by linarith
  ultimately have hi: "a < 2 powi (bitlen \<lfloor>a\<rfloor>)"
    using bl by (simp add: power_int_def)
  show ?thesis using lo hi assms by (simp add: ilog2_def)
qed

lemma ilog2_lt1:
  assumes "0 < a" "a < 1"
  shows "2 powi (ilog2 a) \<le> a \<and> a < 2 powi (ilog2 a + 1)"
proof -
  define c where "c = \<lceil>1 / a\<rceil>"
  have inv: "1 < 1 / a" using assms by simp
  then have c2: "2 \<le> c" unfolding c_def by linarith
  then have cpos: "0 < c - 1" by simp
  define k where "k = bitlen (c - 1)"
  from bitlen_bounds[OF cpos] have b: "2 ^ nat (k - 1) \<le> c - 1" "c - 1 < 2 ^ nat k"
    by (auto simp: k_def)
  have k1: "1 \<le> k" using cpos by (auto simp: k_def bitlen_alt_def)
  have "c \<le> 2 ^ nat k" using b(2) by simp
  then have "(of_int c :: rat) \<le> of_int (2 ^ nat k)" by (simp only: of_int_le_iff)
  then have "(of_int c :: rat) \<le> 2 ^ nat k" by simp
  moreover have "1 / a \<le> of_int c" unfolding c_def by linarith
  ultimately have "1 / a \<le> 2 ^ nat k" by linarith
  then have "1 \<le> 2 ^ nat k * a" using assms(1) by (simp add: pos_divide_le_eq)
  then have lo: "1 / 2 ^ nat k \<le> a" by (simp add: pos_divide_le_eq mult.commute)
  have "(of_int (2 ^ nat (k - 1)) :: rat) \<le> of_int (c - 1)" using b(1) by (simp only: of_int_le_iff)
  then have "(2::rat) ^ nat (k - 1) \<le> of_int (c - 1)" by simp
  moreover have "of_int (c - 1) < 1 / a" unfolding c_def by linarith
  ultimately have "2 ^ nat (k - 1) < 1 / a" by linarith
  then have "2 ^ nat (k - 1) * a < 1" using assms(1) by (simp add: pos_less_divide_eq)
  then have hi: "a < 1 / 2 ^ nat (k - 1)" by (simp add: pos_less_divide_eq mult.commute)
  have e: "ilog2 a = - k" using assms by (simp add: ilog2_def k_def c_def)
  have p1: "(2::rat) powi (- k) = 1 / 2 ^ nat k" using k1 by (simp add: power_int_def inverse_eq_divide power_one_over)
  have p2: "(2::rat) powi (- k + 1) = 1 / 2 ^ nat (k - 1)"
  proof (cases "k = 1")
    case True then show ?thesis by simp
  next
    case False
    then have "- k + 1 < 0" using k1 by simp
    moreover have "nat (- (- k + 1)) = nat (k - 1)" by simp
    ultimately show ?thesis by (simp add: power_int_def inverse_eq_divide power_one_over)
  qed
  show ?thesis using lo hi e p1 p2 by simp
qed

lemma ilog2_bounds:
  assumes "0 < a"
  shows "2 powi (ilog2 a) \<le> a \<and> a < 2 powi (ilog2 a + 1)"
  using assms ilog2_ge1 ilog2_lt1 by (cases "1 \<le> a") auto

lemma ilog2_eqI:
  assumes "0 < a" "2 powi e \<le> a" "a < 2 powi (e + 1)"
  shows "ilog2 a = e"
proof (rule ccontr)
  assume ne: "ilog2 a \<noteq> e"
  from ilog2_bounds[OF assms(1)] have b: "2 powi (ilog2 a) \<le> a" "a < 2 powi (ilog2 a + 1)" by auto
  show False
  proof (cases "ilog2 a < e")
    case True
    then have "ilog2 a + 1 \<le> e" by simp
    then have "(2::rat) powi (ilog2 a + 1) \<le> 2 powi e" by (intro power_int_increasing) auto
    then show False using b(2) assms(2) by linarith
  next
    case False
    then have "e + 1 \<le> ilog2 a" using ne by simp
    then have "(2::rat) powi (e + 1) \<le> 2 powi (ilog2 a)" by (intro power_int_increasing) auto
    then show False using b(1) assms(3) by linarith
  qed
qed

lemma round_half_even_eqI:
  assumes "\<bar>x - of_int m\<bar> < 1 / 2"
  shows "round_half_even x = m"
proof -
  have bd: "of_int m - 1 / 2 < x" "x < of_int m + 1 / 2" using assms by linarith+
  have "\<lfloor>x\<rfloor> = m \<or> \<lfloor>x\<rfloor> = m - 1"
  proof (cases "of_int m \<le> x")
    case True
    then have "\<lfloor>x\<rfloor> = m" using bd by (intro floor_unique) auto
    then show ?thesis by simp
  next
    case False
    then have "\<lfloor>x\<rfloor> = m - 1" using bd by (intro floor_unique) auto
    then show ?thesis by simp
  qed
  then show ?thesis
  proof
    assume f: "\<lfloor>x\<rfloor> = m"
    then have "x - of_int \<lfloor>x\<rfloor> < 1 / 2" using bd by simp
    then show ?thesis using f by (simp add: round_half_even_def Let_def)
  next
    assume f: "\<lfloor>x\<rfloor> = m - 1"
    then have "1 / 2 < x - of_int \<lfloor>x\<rfloor>" using bd by simp
    then show ?thesis using f by (simp add: round_half_even_def Let_def)
  qed
qed

lemma fl_posI:
  assumes "0 < r" "2 powi e \<le> r" "r < 2 powi (e + 1)"
    and "q = max (e - 52) (- 1074)"
    and "\<bar>r / 2 powi q - of_int m\<bar> < 1 / 2"
    and "of_int m * 2 powi q < (2::rat) ^ 1024"
  shows "fl r = Fin (of_int m * 2 powi q)"
proof -
  have e: "ilog2 \<bar>r\<bar> = e" using assms(1-3) by (intro ilog2_eqI) auto
  have m: "round_half_even (\<bar>r\<bar> / 2 powi q) = m"
    using assms(1,5) by (intro round_half_even_eqI) simp
  show ?thesis using assms(1,4,6) e m by (simp add: fl_def Let_def)
qed

lemma fl_of_nat_exact:
  assumes "0 < n" "n < 2 ^ 53"
  shows "fl (of_int n) = Fin (of_int n)"
proof -
  define r :: rat where "r = of_int n"
  have rpos: "0 < r" and r1: "1 \<le> r" using assms by (simp_all add: r_def)
  have rlt: "r < 2 ^ 53"
  proof -
    have "(of_int n :: rat) < of_int (2 ^ 53)" using assms(2) by (simp only: of_int_less_iff)
    then show ?thesis by (simp add: r_def)
  qed
  define e where "e = ilog2 r"
  from ilog2_bounds[OF rpos] have b: "2 powi e \<le> r" "r < 2 powi (e + 1)" by (auto simp: e_def)
  have e0: "0 \<le> e"
  proof (rule ccontr)
    assume "\<not> 0 \<le> e"
    then have "e + 1 \<le> 0" by simp
    then have "(2::rat) powi (e + 1) \<le> 2 powi 0" by (intro power_int_increasing) auto
    then show False using b(2) r1 by simp
  qed
  have e52: "e \<le> 52"
  proof (rule ccontr)
    assume "\<not> e \<le> 52"
    then have "53 \<le> e" by simp
    then have "(2::rat) powi 53 \<le> 2 powi e" by (intro power_int_increasing) auto
    then show False using b(1) rlt by simp
  qed
  define q where "q = e - 52"
  define m where "m = n * 2 ^ nat (52 - e)"
  have qm: "q = max (e - 52) (- 1074)" using e0 e52 by (simp add: q_def)
  have pq: "(2::rat) powi q = 1 / 2 ^ nat (52 - e)"
  proof (cases "e = 52")
    case True then show ?thesis by (simp add: q_def)
  next
    case False
    then have "q < 0" using e52 by (simp add: q_def)
    moreover have "nat (- q) = nat (52 - e)" by (simp add: q_def)
    ultimately show ?thesis by (simp add: power_int_def inverse_eq_divide power_one_over)
  qed
  have quo: "r / 2 powi q = of_int m" by (simp add: pq m_def r_def)
  have mq: "of_int m * 2 powi q = r" by (simp add: pq m_def r_def)
  have "fl r = Fin (of_int m * 2 powi q)"
  proof (rule fl_posI[OF rpos b qm])
    show "\<bar>r / 2 powi q - of_int m\<bar> < 1 / 2" by (simp add: quo)
    have "r < 2 ^ 1024" using rlt by (rule less_trans) simp
    then show "of_int m * 2 powi q < (2::rat) ^ 1024" by (simp add: mq)
  qed
  then show ?thesis by (simp add: mq r_def)
qed

text \<open>Integers below \<open>2^53\<close> are binary64 values: \<^verbatim>\<open>Number(b)\<close> is exact on them.\<close>

lemma Number_of_bigint_exact:
  "0 \<le> n \<Longrightarrow> n < 2 ^ 53 \<Longrightarrow> Number_of_bigint n = Fin (of_int n)"
  using fl_of_nat_exact[of n] by (cases "n = 0") (auto simp: Number_of_bigint_def fl_def)

section \<open>The copy intent calculator\<close>

subsection \<open>Evaluation at the literals of the examples\<close>

lemma js_lit_tenth: "js_lit (1 / 10) = Fin (3602879701896397 / 2 ^ 55)"
  unfolding js_lit_def using fl_posI[of "1/10" "-4" "-56" 7205759403792794] by simp



lemma Number_SCALE: "Number_of_bigint SCALE = Fin 1000000"
  by (simp add: Number_of_bigint_exact SCALE_def)

lemma bigint_div_nonneg: "0 \<le> a \<Longrightarrow> 0 < b \<Longrightarrow> bigint_div a b = a div b"
  by (cases "a = 0") (simp_all add: bigint_div_def)

lemma toBigInt_1000: "toBigInt (Some ''1000'') = Some 1000"
  by (simp add: toBigInt_def BigInt_of_string_def trim_def is_ws_def radix_prefix_def
      parse_nat_def digit_value_def lower_char_def int_result_def)

lemma toBigInt_500: "toBigInt (Some ''500'') = Some 500"
  by (simp add: toBigInt_def BigInt_of_string_def trim_def is_ws_def radix_prefix_def
      parse_nat_def digit_value_def lower_char_def int_result_def)

lemma scale_tenth_micros:
  "BigInt_of_number (Math_floor (js_times (js_lit (1 / 10)) (Number_of_bigint SCALE))) = Inr 100000"
proof -
  have "fl (3602879701896397 / 2 ^ 55 * 1000000) = Fin 100000"
    using fl_posI[of "3602879701896397 / 2 ^ 55 * 1000000" 16 "- 36" 6871947673600000] by simp
  then show ?thesis by (simp add: js_lit_tenth Number_SCALE)
qed

lemma applyScale_tenth: "0 \<le> v \<Longrightarrow> applyScale v (js_lit (1 / 10)) = Inr ((v * 100000) div 1000000)"
  unfolding applyScale_def scale_tenth_micros by (simp add: bigint_div_nonneg SCALE_def)

lemma js_lit_500: "js_lit 500 = Fin 500"
  using fl_of_nat_exact[of 500] by (simp add: js_lit_def)

lemma Number_div_SCALE:
  "0 < n \<Longrightarrow> n < 2 ^ 53 \<Longrightarrow>
   js_divide (Number_of_bigint n) (Number_of_bigint SCALE) = js_lit (of_int n / 1000000)"
  by (simp add: Number_of_bigint_exact Number_SCALE js_lit_def)

lemma buildCopyIntent_tenth:
  "buildCopyIntent
     \<lparr>fill_hash = h, fill_tokenId = t, fill_side = BUY,
      fill_shares = Some ''1000'', fill_usdc = Some ''500''\<rparr>
     \<lparr>scale = js_lit (1 / 10), slippageBps = js_lit 500, orderType = ot,
      simulateOnly = so, allowBuy = True, allowSell = als\<rparr>
   = Inr (Some \<lparr>intent_tokenId = t, intent_side = Side_BUY,
                 intent_size = js_lit (1 / 10000), intent_price = js_lit (525 / 1000),
                 intent_impliedPrice = js_lit (1 / 2), intent_notional = js_lit (1 / 20000),
                 intent_hash = h\<rparr>)"
proof -
  have pos: "\<not> js_le (js_lit (1 / 10)) (Fin 0)" by (simp add: js_lit_tenth)
  have price: "bigint_div (500 * SCALE) 1000 = 500000"
    by (simp add: bigint_div_nonneg SCALE_def)
  have limit: "applySlippage 500000 (js_lit 500) BUY = Inr 525000"
    by (simp add: applySlippage_def js_lit_500 bigint_div_nonneg)
  show ?thesis
    by (simp add: buildCopyIntent_def pos toBigInt_1000 toBigInt_500 applyScale_tenth
        price limit Number_div_SCALE)
qed

lemma js_lit_1e4: "js_lit (1 / 10000) = Fin (7378697629483821 / 2 ^ 66)"
  unfolding js_lit_def using fl_posI[of "1/10000" "-14" "-66" 7378697629483821] by simp

lemma js_lit_2e4: "js_lit (1 / 20000) = Fin (7378697629483821 / 2 ^ 67)"
  unfolding js_lit_def using fl_posI[of "1/20000" "-15" "-67" 7378697629483821] by simp

lemma js_lit_100: "js_lit 100 = Fin 100"
  using fl_of_nat_exact[of 100] by (simp add: js_lit_def)

lemma js_lit_50: "js_lit 50 = Fin 50"
  using fl_of_nat_exact[of 50] by (simp add: js_lit_def)



lemma js_lit_1: "js_lit 1 = Fin 1"
  using fl_of_nat_exact[of 1] by (simp add: js_lit_def)

lemma js_lit_0: "js_lit 0 = Fin 0"
  by (simp add: js_lit_def fl_def)

lemma applyScale_one: "0 \<le> v \<Longrightarrow> applyScale v (js_lit 1) = Inr v"
proof -
  have "fl 1000000 = Fin 1000000" using fl_of_nat_exact[of 1000000] by simp
  then have "BigInt_of_number (Math_floor (js_times (js_lit 1) (Number_of_bigint SCALE))) = Inr 1000000"
    by (simp add: js_lit_1 Number_SCALE)
  then show "0 \<le> v \<Longrightarrow> applyScale v (js_lit 1) = Inr v"
    unfolding applyScale_def by (simp add: bigint_div_nonneg SCALE_def)
qed

lemma toBigInt_1e7: "toBigInt (Some ''10000000'') = Some 10000000"
  by (simp add: toBigInt_def BigInt_of_string_def trim_def is_ws_def radix_prefix_def
      parse_nat_def digit_value_def lower_char_def int_result_def)




lemma toBigInt_1: "toBigInt (Some ''1'') = Some 1"
  by (simp add: toBigInt_def BigInt_of_string_def trim_def is_ws_def radix_prefix_def
      parse_nat_def digit_value_def lower_char_def int_result_def)

subsection \<open>C1: the worked example\<close>

text \<open>
  C1, as the code computes it: for the fill with shares \<open>1000\<close>, usdc \<open>500\<close>, side BUY and
  the configuration with scale \<open>0.1\<close>, \<open>500\<close> bps of slippage and buying enabled,
  \<open>buildCopyIntent\<close> returns an intent with implied price \<open>0.5\<close> and limit price
  \<open>0.525\<close>, whose size and notional are the scaled amounts \<open>100\<close> and \<open>50\<close> divided by
  \<open>10^6\<close>: size \<open>0.0001\<close> and notional \<open>0.00005\<close>.
\<close>

theorem buildCopyIntent_example:
  "buildCopyIntent
     \<lparr>fill_hash = h, fill_tokenId = t, fill_side = BUY,
      fill_shares = Some ''1000'', fill_usdc = Some ''500''\<rparr>
     \<lparr>scale = js_lit (1 / 10), slippageBps = js_lit 500, orderType = ot,
      simulateOnly = so, allowBuy = True, allowSell = als\<rparr>
   = Inr (Some \<lparr>intent_tokenId = t, intent_side = Side_BUY,
                 intent_size = js_lit (1 / 10000), intent_price = js_lit (525 / 1000),
                 intent_impliedPrice = js_lit (1 / 2), intent_notional = js_lit (1 / 20000),
                 intent_hash = h\<rparr>)"
  by (rule buildCopyIntent_tenth)

text \<open>
  C1 as stated fails: on that input the size of the intent is not \<open>100\<close> and its notional
  is not \<open>50\<close>.
\<close>

theorem example_size_not_raw_units:
  "buildCopyIntent
     \<lparr>fill_hash = None, fill_tokenId = ''7'', fill_side = BUY,
      fill_shares = Some ''1000'', fill_usdc = Some ''500''\<rparr>
     \<lparr>scale = js_lit (1 / 10), slippageBps = js_lit 500, orderType = FAK,
      simulateOnly = True, allowBuy = True, allowSell = True\<rparr>
   = Inr (Some \<lparr>intent_tokenId = ''7'', intent_side = Side_BUY,
                 intent_size = js_lit (1 / 10000), intent_price = js_lit (525 / 1000),
                 intent_impliedPrice = js_lit (1 / 2), intent_notional = js_lit (1 / 20000),
                 intent_hash = None\<rparr>)
   \<and> js_lit (1 / 10000) \<noteq> js_lit 100 \<and> js_lit (1 / 20000) \<noteq> js_lit 50"
  by (simp add: buildCopyIntent_tenth js_lit_1e4 js_lit_2e4 js_lit_100 js_lit_50)

subsection \<open>C4: when no intent is produced\<close>




subsection \<open>C9: fills of unknown side\<close>

text \<open>
  C9 as stated fails: a fill of unknown side with shares \<open>10000000\<close> and usdc \<open>1\<close> passes
  every listed precondition under scale \<open>1\<close>, yet its implied price floors to \<open>0\<close>
  micro-units and \<open>buildCopyIntent\<close> returns \<^verbatim>\<open>null\<close>.
\<close>

theorem unknown_side_price_floor_null:
  "toBigInt (Some ''10000000'') = Some 10000000 \<and> toBigInt (Some ''1'') = Some 1
   \<and> \<not> js_le (js_lit 1) (Fin 0)
   \<and> applyScale 10000000 (js_lit 1) = Inr 10000000 \<and> applyScale 1 (js_lit 1) = Inr 1
   \<and> buildCopyIntent
        \<lparr>fill_hash = None, fill_tokenId = ''7'', fill_side = UNKNOWN,
         fill_shares = Some ''10000000'', fill_usdc = Some ''1''\<rparr>
        \<lparr>scale = js_lit 1, slippageBps = js_lit 0, orderType = FAK,
         simulateOnly = True, allowBuy = True, allowSell = True\<rparr> = Inr None"
proof -
  have pos: "\<not> js_le (js_lit 1) (Fin 0)" by (simp add: js_lit_1)
  have price: "bigint_div SCALE 10000000 = 0"
    by (simp add: bigint_div_nonneg SCALE_def)
  show ?thesis
    by (simp add: buildCopyIntent_def toBigInt_1e7 toBigInt_1 pos applyScale_one
        applySlippage_def js_lit_0 price)
qed

text \<open>
  C9, amended: for every fill of unknown side with positive parsed shares and usdc, a
  scale \<open>> 0\<close>, positive scaled amounts, an integral \<open>slippageBps\<close> and an implied price
  of at least one micro-unit (\<open>shares \<le> usdc \<sqdot> 10^6\<close>), \<open>buildCopyIntent\<close> returns an
  intent whose side is BUY and whose limit price is the implied price, whatever
  \<open>allowBuy\<close> and \<open>allowSell\<close> are.
\<close>

theorem buildCopyIntent_unknown_side:
  assumes "fill_side fill = UNKNOWN"
    and "toBigInt (fill_shares fill) = Some shares" and "0 < shares"
    and "toBigInt (fill_usdc fill) = Some usdc" and "0 < usdc"
    and "\<not> js_le (scale config) (Fin 0)"
    and "applyScale shares (scale config) = Inr copyShares" and "0 < copyShares"
    and "applyScale usdc (scale config) = Inr copyUsdc" and "0 < copyUsdc"
    and "BigInt_of_number (slippageBps config) = Inr bps"
    and "shares \<le> usdc * SCALE"
  shows "buildCopyIntent fill config =
           Inr (Some \<lparr>intent_tokenId = fill_tokenId fill, intent_side = Side_BUY,
                 intent_size = js_divide (Number_of_bigint copyShares) (Number_of_bigint SCALE),
                 intent_price =
                   js_divide (Number_of_bigint ((usdc * SCALE) div shares)) (Number_of_bigint SCALE),
                 intent_impliedPrice =
                   js_divide (Number_of_bigint ((usdc * SCALE) div shares)) (Number_of_bigint SCALE),
                 intent_notional = js_divide (Number_of_bigint copyUsdc) (Number_of_bigint SCALE),
                 intent_hash = fill_hash fill\<rparr>)"
proof -
  have nn: "0 \<le> usdc * SCALE" using assms(5) by (simp add: SCALE_def)
  have price: "bigint_div (usdc * SCALE) shares = (usdc * SCALE) div shares"
    using nn assms(3) by (rule bigint_div_nonneg)
  have "0 < (usdc * SCALE) div shares"
    using pos_imp_zdiv_pos_iff[OF assms(3), of "usdc * SCALE"] assms(12) by simp
  then have ppos: "\<not> (usdc * SCALE) div shares \<le> 0" by simp
  have slip: "applySlippage ((usdc * SCALE) div shares) (slippageBps config) UNKNOWN
                = Inr ((usdc * SCALE) div shares)"
    using assms(11) by (simp add: applySlippage_def)
  show ?thesis using assms(1-10) ppos
    by (simp add: buildCopyIntent_def price slip Let_def)
qed

theorem buildCopyIntent_unknown_side_witness:
  "fill_side \<lparr>fill_hash = None, fill_tokenId = ''7'', fill_side = UNKNOWN,
               fill_shares = Some ''1000'', fill_usdc = Some ''500''\<rparr> = UNKNOWN
   \<and> toBigInt (Some ''1000'') = Some 1000 \<and> (0::int) < 1000
   \<and> toBigInt (Some ''500'') = Some 500 \<and> (0::int) < 500
   \<and> \<not> js_le (js_lit (1 / 10)) (Fin 0)
   \<and> applyScale 1000 (js_lit (1 / 10)) = Inr 100 \<and> applyScale 500 (js_lit (1 / 10)) = Inr 50
   \<and> BigInt_of_number (js_lit 500) = Inr 500 \<and> (1000::int) \<le> 500 * SCALE
   \<and> buildCopyIntent
        \<lparr>fill_hash = None, fill_tokenId = ''7'', fill_side = UNKNOWN,
         fill_shares = Some ''1000'', fill_usdc = Some ''500''\<rparr>
        \<lparr>scale = js_lit (1 / 10), slippageBps = js_lit 500, orderType = FAK,
         simulateOnly = True, allowBuy = False, allowSell = False\<rparr>
       = Inr (Some \<lparr>intent_tokenId = ''7'', intent_side = Side_BUY,
                     intent_size = js_lit (1 / 10000), intent_price = js_lit (1 / 2),
                     intent_impliedPrice = js_lit (1 / 2), intent_notional = js_lit (1 / 20000),
                     intent_hash = None\<rparr>)"
proof -
  have pos: "\<not> js_le (js_lit (1 / 10)) (Fin 0)" by (simp add: js_lit_tenth)
  have s: "applyScale 1000 (js_lit (1 / 10)) = Inr 100" by (simp add: applyScale_tenth)
  have u: "applyScale 500 (js_lit (1 / 10)) = Inr 50" by (simp add: applyScale_tenth)
  have b: "BigInt_of_number (js_lit 500) = Inr 500" by (simp add: js_lit_500)
  have le: "(1000::int) \<le> 500 * SCALE" by (simp add: SCALE_def)
  have p: "(500 * SCALE) div 1000 = 500000" by (simp add: SCALE_def)
  from buildCopyIntent_unknown_side[of
      "\<lparr>fill_hash = None, fill_tokenId = ''7'', fill_side = UNKNOWN,
         fill_shares = Some ''1000'', fill_usdc = Some ''500''\<rparr>" 1000 500
      "\<lparr>scale = js_lit (1 / 10), slippageBps = js_lit 500, orderType = FAK,
         simulateOnly = True, allowBuy = False, allowSell = False\<rparr>" 100 50 500]
  show ?thesis
    by (simp add: toBigInt_1000 toBigInt_500 pos s u b le p Number_div_SCALE)
qed

section \<open>The calldata decoder\<close>

subsection \<open>C5: the calldata pre-filter\<close>

lemma toLowerCase_append: "toLowerCase (a @ b) = toLowerCase a @ toLowerCase b"
  by (simp add: toLowerCase_def)

lemma length_toLowerCase: "length (toLowerCase s) = length s"
  by (simp add: toLowerCase_def)

text \<open>
  C5, amended: \<open>matchesCalldata\<close> is false for every non-string, for every string shorter
  than the selector and for every string whose lowercase form does not start with the
  selector. For a non-empty selector it is true exactly when the input is a string whose
  lowercase form starts with the selector and contains the lowercase form of the needle;
  so for a selector written in lowercase it is true for every string made of the selector
  followed, anywhere later, by the needle.
\<close>

theorem matchesCalldata_spec:
  "(selector \<noteq> [] \<longrightarrow>
      (matchesCalldata raw needle selector \<longleftrightarrow>
        (\<exists>s. raw = JsString s
           \<and> (\<exists>rest. toLowerCase s = selector @ rest)
           \<and> (\<exists>pre post. toLowerCase s = pre @ toLowerCase needle @ post))))
   \<and> \<not> matchesCalldata JsNonString needle selector
   \<and> (length s < length selector \<longrightarrow> \<not> matchesCalldata (JsString s) needle selector)
   \<and> (\<not> prefix selector (toLowerCase s) \<longrightarrow> \<not> matchesCalldata (JsString s) needle selector)
   \<and> (selector \<noteq> [] \<and> toLowerCase selector = selector \<longrightarrow>
        matchesCalldata (JsString (selector @ mid @ needle @ post)) needle selector)"
proof (intro conjI impI)
  assume ne: "selector \<noteq> []"
  show "matchesCalldata raw needle selector \<longleftrightarrow>
        (\<exists>s. raw = JsString s
           \<and> (\<exists>rest. toLowerCase s = selector @ rest)
           \<and> (\<exists>pre post. toLowerCase s = pre @ toLowerCase needle @ post))"
  proof (cases raw)
    case JsNonString
    then show ?thesis by (simp add: matchesCalldata_def)
  next
    case (JsString r)
    have "r = [] \<Longrightarrow> \<not> prefix selector (toLowerCase r)"
      using ne by (simp add: toLowerCase_def)
    then show ?thesis using JsString
      by (auto simp: matchesCalldata_def Let_def startsWith_def js_includes_def prefix_def
          sublist_def)
  qed
next
  show "\<not> matchesCalldata JsNonString needle selector"
    by (simp add: matchesCalldata_def)
next
  assume "length s < length selector"
  then have "\<not> prefix selector (toLowerCase s)"
    using prefix_length_le[of selector "toLowerCase s"] by (auto simp: length_toLowerCase)
  then show "\<not> matchesCalldata (JsString s) needle selector"
    by (simp add: matchesCalldata_def Let_def startsWith_def)
next
  assume "\<not> prefix selector (toLowerCase s)"
  then show "\<not> matchesCalldata (JsString s) needle selector"
    by (simp add: matchesCalldata_def Let_def startsWith_def)
next
  assume a: "selector \<noteq> [] \<and> toLowerCase selector = selector"
  have p: "prefix selector (toLowerCase (selector @ mid @ needle @ post))"
    using a by (simp add: toLowerCase_append)
  have "toLowerCase (selector @ mid @ needle @ post)
          = (selector @ toLowerCase mid) @ toLowerCase needle @ toLowerCase post"
    using a by (simp add: toLowerCase_append)
  then have i: "sublist (toLowerCase needle) (toLowerCase (selector @ mid @ needle @ post))"
    unfolding sublist_def by blast
  show "matchesCalldata (JsString (selector @ mid @ needle @ post)) needle selector"
    using a p i by (simp add: matchesCalldata_def Let_def startsWith_def js_includes_def)
qed


theorem matchesCalldata_spec_witness:
  "MATCH_SELECTOR \<noteq> []
   \<and> length ''0x22'' < length MATCH_SELECTOR
   \<and> \<not> prefix MATCH_SELECTOR (toLowerCase ''0xa9059cbb00ab'')
   \<and> toLowerCase MATCH_SELECTOR = MATCH_SELECTOR
   \<and> \<not> matchesCalldata (JsString ''0x22'') ''ab'' MATCH_SELECTOR
   \<and> \<not> matchesCalldata (JsString ''0xa9059cbb00ab'') ''ab'' MATCH_SELECTOR
   \<and> matchesCalldata (JsString (MATCH_SELECTOR @ ''00'' @ ''ab'' @ ''ff'')) ''ab'' MATCH_SELECTOR"
proof -
  have h1: "MATCH_SELECTOR \<noteq> []" by (simp add: MATCH_SELECTOR_def)
  have h2: "length ''0x22'' < length MATCH_SELECTOR" by (simp add: MATCH_SELECTOR_def)
  have h3: "\<not> prefix MATCH_SELECTOR (toLowerCase ''0xa9059cbb00ab'')"
    by (simp add: MATCH_SELECTOR_def toLowerCase_def lower_char_def)
  have h4: "toLowerCase MATCH_SELECTOR = MATCH_SELECTOR"
    by (simp add: MATCH_SELECTOR_def toLowerCase_def lower_char_def)
  from matchesCalldata_spec[where selector = MATCH_SELECTOR and needle = "''ab''"
      and s = "''0x22''" and mid = "''00''" and post = "''ff''" and raw = JsNonString] h1 h2 h4
  have a: "\<not> matchesCalldata (JsString ''0x22'') ''ab'' MATCH_SELECTOR"
    and c: "matchesCalldata (JsString (MATCH_SELECTOR @ ''00'' @ ''ab'' @ ''ff'')) ''ab'' MATCH_SELECTOR"
    by blast+
  from matchesCalldata_spec[where selector = MATCH_SELECTOR and needle = "''ab''"
      and s = "''0xa9059cbb00ab''" and mid = "''00''" and post = "''ff''" and raw = JsNonString] h3
  have b: "\<not> matchesCalldata (JsString ''0xa9059cbb00ab'') ''ab'' MATCH_SELECTOR"
    by blast
  show ?thesis using h1 h2 h3 h4 a b c by blast
qed

text \<open>
  C5 as stated fails on letter case. The string made of an upper-case selector and the
  needle is rejected although it contains selector and needle; and an upper-case needle
  is found although the lowercase form of the input does not contain it.
\<close>

theorem matchesCalldata_case_counterexample:
  "\<not> matchesCalldata (JsString (''0x2287E350'' @ ''ab'')) ''ab'' ''0x2287E350''
   \<and> matchesCalldata (JsString (MATCH_SELECTOR @ ''ab'')) ''AB'' MATCH_SELECTOR
   \<and> \<not> js_includes (toLowerCase (MATCH_SELECTOR @ ''ab'')) ''AB''"
  by (simp add: matchesCalldata_def MATCH_SELECTOR_def toLowerCase_def lower_char_def
      startsWith_def js_includes_def Let_def sublist_code)

subsection \<open>Evaluation of the example calls\<close>

lemma String_500: "String_of_bigint 500 = ''500''"
  by (simp add: String_of_bigint_def nat_digits.simps)

lemma String_150: "String_of_bigint 150 = ''150''"
  by (simp add: String_of_bigint_def nat_digits.simps)

lemma String_100: "String_of_bigint 100 = ''100''"
  by (simp add: String_of_bigint_def nat_digits.simps)

lemma String_5: "String_of_bigint 5 = ''5''"
  by (simp add: String_of_bigint_def nat_digits.simps)

lemma String_7: "String_of_bigint 7 = ''7''"
  by (simp add: String_of_bigint_def nat_digits.simps)

lemmas ex_defs = ex_call_def ex_args_def ex_order_def

lemmas fill_eval = computeFillForTarget_def Let_def makerMatches_def field_is_def
  toLowerCase_def lower_char_def truthy_def computeMakerFill_def at_index_def safeBigInt_def
  takerFill_def takerDerived_def bigint_div_nonneg

subsection \<open>C3: fills of the taker\<close>

lemma taker_role_result:
  assumes "functionName d = ''matchOrders''" and "args d = Some a"
    and "field_is (maker (takerOrder a)) (toLowerCase addr)
         \<or> field_is (signer (takerOrder a)) (toLowerCase addr)"
  shows "computeFillForTarget (Some d) addr =
     (let sd = (if side (takerOrder a) = Some 0 then BUY
                else if side (takerOrder a) = Some 1 then SELL else UNKNOWN);
          su = takerFill sd (takerOrder a) (takerFillAmount a) (takerReceiveAmount a)
      in Some \<lparr>fb_role = TAKER, fb_side = sd,
                fb_tokenId = (if truthy (tokenId (takerOrder a))
                              then map_option String_of_bigint (tokenId (takerOrder a)) else None),
                fb_shares = map_option String_of_bigint (fst su),
                fb_usdc = map_option String_of_bigint (snd su)\<rparr>)"
  using assms by (simp add: computeFillForTarget_def Let_def)

lemma takerDerived_pos:
  "0 < f \<Longrightarrow> 0 < m \<Longrightarrow> 0 < t \<Longrightarrow> takerDerived (Some f) (Some m) (Some t) = Some ((f * t) div m)"
  by (simp add: takerDerived_def truthy_def bigint_div_nonneg)

lemma takerDerived_zero:
  "\<not> truthy fill \<or> \<not> truthy mA \<or> \<not> truthy tA \<Longrightarrow> takerDerived fill mA tA = None"
  by (auto simp: takerDerived_def split: option.splits)

text \<open>
  C3, amended: when the target is the taker of a decoded \<^verbatim>\<open>matchOrders\<close> call, the role
  is TAKER. On a BUY, usdc is \<open>takerFillAmount\<close> and shares is \<open>takerReceiveAmount\<close> when that
  is present; when it is absent and \<open>takerFillAmount\<close>, \<open>takerAmount\<close> and \<open>makerAmount\<close>
  are all non-zero, shares is \<open>\<lfloor>takerFillAmount \<sqdot> takerAmount / makerAmount\<rfloor>\<close>, the product
  taken before the division; when one of the three is missing or zero, shares is
  \<^verbatim>\<open>undefined\<close>. On a SELL the two fields are swapped. Amounts are reported as decimal
  strings.
\<close>

theorem taker_fill_amounts:
  assumes "functionName d = ''matchOrders''" and "args d = Some a"
    and "field_is (maker (takerOrder a)) (toLowerCase addr)
         \<or> field_is (signer (takerOrder a)) (toLowerCase addr)"
  shows "\<exists>fb. computeFillForTarget (Some d) addr = Some fb \<and> fb_role fb = TAKER
     \<and> (side (takerOrder a) = Some 0 \<longrightarrow>
          fb_side fb = BUY
          \<and> fb_usdc fb = map_option String_of_bigint (takerFillAmount a)
          \<and> (\<forall>r. takerReceiveAmount a = Some r \<longrightarrow> fb_shares fb = Some (String_of_bigint r))
          \<and> (\<forall>f m t. takerReceiveAmount a = None \<and> takerFillAmount a = Some f
                 \<and> makerAmount (takerOrder a) = Some m \<and> takerAmount (takerOrder a) = Some t
                 \<and> 0 < f \<and> 0 < m \<and> 0 < t
                 \<longrightarrow> fb_shares fb = Some (String_of_bigint ((f * t) div m)))
          \<and> (takerReceiveAmount a = None
               \<and> (\<not> truthy (takerFillAmount a) \<or> \<not> truthy (makerAmount (takerOrder a))
                    \<or> \<not> truthy (takerAmount (takerOrder a)))
               \<longrightarrow> fb_shares fb = None))
     \<and> (side (takerOrder a) = Some 1 \<longrightarrow>
          fb_side fb = SELL
          \<and> fb_shares fb = map_option String_of_bigint (takerFillAmount a)
          \<and> (\<forall>r. takerReceiveAmount a = Some r \<longrightarrow> fb_usdc fb = Some (String_of_bigint r))
          \<and> (\<forall>f m t. takerReceiveAmount a = None \<and> takerFillAmount a = Some f
                 \<and> makerAmount (takerOrder a) = Some m \<and> takerAmount (takerOrder a) = Some t
                 \<and> 0 < f \<and> 0 < m \<and> 0 < t
                 \<longrightarrow> fb_usdc fb = Some (String_of_bigint ((f * t) div m)))
          \<and> (takerReceiveAmount a = None
               \<and> (\<not> truthy (takerFillAmount a) \<or> \<not> truthy (makerAmount (takerOrder a))
                    \<or> \<not> truthy (takerAmount (takerOrder a)))
               \<longrightarrow> fb_usdc fb = None))"
  unfolding taker_role_result[OF assms] Let_def
  by (auto simp: takerFill_def safeBigInt_def Let_def takerDerived_pos takerDerived_zero
      split: option.splits)


theorem taker_fill_amounts_witness:
  "functionName (ex_call (ex_args (ex_order ''0xABC1'' ''0x7a12'' 100 500 0) []
                            (Some 100) (Some 500) [])) = ''matchOrders''
   \<and> field_is (maker (ex_order ''0xABC1'' ''0x7a12'' 100 500 0)) (toLowerCase ''0xAbC1'')
   \<and> side (ex_order ''0xABC1'' ''0x7a12'' 100 500 0) = Some 0
   \<and> map_option fb_role (computeFillForTarget
        (Some (ex_call (ex_args (ex_order ''0xABC1'' ''0x7a12'' 100 500 0) []
                            (Some 100) (Some 500) []))) ''0xAbC1'') = Some TAKER
   \<and> map_option fb_usdc (computeFillForTarget
        (Some (ex_call (ex_args (ex_order ''0xABC1'' ''0x7a12'' 100 500 0) []
                            (Some 100) (Some 500) []))) ''0xAbC1'') = Some (Some ''100'')
   \<and> map_option fb_shares (computeFillForTarget
        (Some (ex_call (ex_args (ex_order ''0xABC1'' ''0x7a12'' 100 500 0) []
                            (Some 100) (Some 500) []))) ''0xAbC1'') = Some (Some ''500'')"
proof -
  let ?t = "ex_order ''0xABC1'' ''0x7a12'' 100 500 0"
  let ?a = "ex_args ?t [] (Some 100) (Some 500) []"
  have h1: "functionName (ex_call ?a) = ''matchOrders''" by (simp add: ex_defs)
  have h2: "args (ex_call ?a) = Some ?a" by (simp add: ex_defs)
  have f: "field_is (maker ?t) (toLowerCase ''0xAbC1'')"
    by (simp add: ex_defs field_is_def toLowerCase_def lower_char_def)
  have sd: "side ?t = Some 0" by (simp add: ex_defs)
  have t: "takerOrder ?a = ?t" "takerFillAmount ?a = Some 100" "takerReceiveAmount ?a = Some 500"
    by (simp_all add: ex_args_def)
  have h3: "field_is (maker (takerOrder ?a)) (toLowerCase ''0xAbC1'')
            \<or> field_is (signer (takerOrder ?a)) (toLowerCase ''0xAbC1'')"
    using f by (simp add: t)
  from taker_fill_amounts[OF h1 h2 h3]
  obtain fb where "computeFillForTarget (Some (ex_call ?a)) ''0xAbC1'' = Some fb"
    and "fb_role fb = TAKER"
    and "fb_usdc fb = Some (String_of_bigint 100)" and "fb_shares fb = Some (String_of_bigint 500)"
    unfolding t using sd by auto
  then show ?thesis using h1 f sd by (simp add: String_100 String_500)
qed

text \<open>
  C3 as stated fails when \<open>takerReceiveAmount\<close> is absent and an operand is zero: with
  \<open>takerFillAmount = 5\<close>, \<open>takerAmount = 0\<close> and \<open>makerAmount = 10\<close> on a BUY, shares is
  \<^verbatim>\<open>undefined\<close>, not the string of \<open>\<lfloor>5 \<sqdot> 0 / 10\<rfloor> = 0\<close>.
\<close>

theorem taker_derived_zero_undefined:
  "computeFillForTarget
     (Some (ex_call (ex_args (ex_order ''0xABC1'' ''0x7a12'' 10 0 0) [] (Some 5) None [])))
     ''0xAbC1''
   = Some \<lparr>fb_role = TAKER, fb_side = BUY, fb_tokenId = Some ''7'',
            fb_shares = None, fb_usdc = Some ''5''\<rparr>"
  by (simp add: ex_defs fill_eval String_5 String_7)

subsection \<open>C2: fills of a maker\<close>

lemma makerSums_sum:
  "makerSums es fills acc =
     (fst acc + (\<Sum>e\<leftarrow>es. fst (code_leg fills e)), snd acc + (\<Sum>e\<leftarrow>es. snd (code_leg fills e)))"
proof (induction es arbitrary: acc)
  case Nil
  then show ?case by simp
next
  case (Cons e es)
  show ?case
    by (cases "at_index fills (snd e)")
       (simp_all add: Cons.IH code_leg_def safeBigInt_def Let_def split: option.splits)
qed

lemma zip_upt_map: "zip xs [0..<length xs] = map (\<lambda>i. (xs ! i, i)) [0..<length xs]"
  by (rule nth_equalityI) simp_all

lemma sum_list_filter_if:
  "(\<Sum>e\<leftarrow>filter P es. (g e :: int)) = (\<Sum>e\<leftarrow>es. if P e then g e else 0)"
  by (induction es) simp_all

lemma makerMatches_sum:
  "(\<Sum>e\<leftarrow>makerMatches orders target. (g e :: int)) =
     (\<Sum>i\<leftarrow>[0..<length orders]. if leg_matches (orders ! i) target then g (orders ! i, i) else 0)"
  by (simp add: makerMatches_def sum_list_filter_if zip_upt_map comp_def leg_matches_def)

lemma code_leg_wellformed:
  assumes "makerAmount ord = Some m" "0 < m" "takerAmount ord = Some t" "0 \<le> t"
    and "i < length fills" "0 \<le> fills ! i"
  shows "code_leg fills (ord, i) = (spec_leg_shares ord (fills ! i), spec_leg_usdc ord (fills ! i))"
  using assms
  by (auto simp: code_leg_def at_index_def computeMakerFill_def safeBigInt_def
      spec_leg_shares_def spec_leg_usdc_def spec_ratio_def bigint_div_nonneg)

lemma code_leg_missing: "\<not> i < length fills \<Longrightarrow> code_leg fills (ord, i) = (0, 0)"
  by (simp add: code_leg_def at_index_def)

lemma maker_role_result:
  assumes "functionName d = ''matchOrders''" and "args d = Some a"
    and "\<not> leg_matches (takerOrder a) (toLowerCase addr)"
    and "makerMatches (makerOrders a) (toLowerCase addr) \<noteq> []"
  shows "computeFillForTarget (Some d) addr =
     (let tot = makerSums (makerMatches (makerOrders a) (toLowerCase addr)) (makerFillAmounts a) (0, 0)
      in Some \<lparr>fb_role = MAKER,
                fb_side = (if side (takerOrder a) = Some 0 then BUY
                           else if side (takerOrder a) = Some 1 then SELL else UNKNOWN),
                fb_tokenId = (if truthy (tokenId (takerOrder a))
                              then map_option String_of_bigint (tokenId (takerOrder a)) else None),
                fb_shares = reported (fst tot),
                fb_usdc = reported (snd tot)\<rparr>)"
  using assms by (simp add: computeFillForTarget_def Let_def leg_matches_def reported_def)

text \<open>
  C2, amended: when the role is MAKER, the two totals range over exactly the maker legs
  whose maker field or signer field is the target (compared in lowercase), each with the
  entry of \<open>makerFillAmounts\<close> at its own index: a BUY leg adds its fill to usdc and
  \<open>\<lfloor>fill \<sqdot> takerAmount / makerAmount\<rfloor>\<close> to shares, a SELL leg adds its fill to shares and
  that quotient to usdc (unsigned amounts, \<open>makerAmount\<close> non-zero). Each total is reported
  as its decimal string when positive. A single matching SELL leg with
  \<open>makerAmount = 1000\<close>, \<open>takerAmount = 300\<close> and fill \<open>500\<close> gives shares \<open>''500''\<close> and
  usdc \<open>''150''\<close>.
\<close>

theorem maker_fill_sums:
  assumes "functionName d = ''matchOrders''" and "args d = Some a"
    and "\<not> leg_matches (takerOrder a) (toLowerCase addr)"
    and "makerMatches (makerOrders a) (toLowerCase addr) \<noteq> []"
    and wf: "\<forall>i < length (makerOrders a).
               i < length (makerFillAmounts a) \<and> leg_matches (makerOrders a ! i) (toLowerCase addr)
               \<longrightarrow> (\<exists>m t. makerAmount (makerOrders a ! i) = Some m \<and> 0 < m
                          \<and> takerAmount (makerOrders a ! i) = Some t \<and> 0 \<le> t)
                    \<and> 0 \<le> makerFillAmounts a ! i"
  shows "\<exists>fb. computeFillForTarget (Some d) addr = Some fb \<and> fb_role fb = MAKER
           \<and> fb_shares fb = reported (spec_maker_total spec_leg_shares (makerOrders a)
                                        (makerFillAmounts a) (toLowerCase addr))
           \<and> fb_usdc fb = reported (spec_maker_total spec_leg_usdc (makerOrders a)
                                      (makerFillAmounts a) (toLowerCase addr))"
proof -
  let ?os = "makerOrders a" and ?fs = "makerFillAmounts a" and ?t = "toLowerCase addr"
  have leg: "(if leg_matches (?os ! i) ?t then code_leg ?fs (?os ! i, i) else (0, 0))
           = (if i < length ?fs \<and> leg_matches (?os ! i) ?t
              then (spec_leg_shares (?os ! i) (?fs ! i), spec_leg_usdc (?os ! i) (?fs ! i))
              else (0, 0))" if "i < length ?os" for i
  proof (cases "i < length ?fs \<and> leg_matches (?os ! i) ?t")
    case True
    with wf that obtain m t where "makerAmount (?os ! i) = Some m" "0 < m"
      "takerAmount (?os ! i) = Some t" "0 \<le> t" "0 \<le> ?fs ! i" by blast
    then show ?thesis using True by (simp add: code_leg_wellformed)
  next
    case False
    then show ?thesis by (auto simp: code_leg_missing)
  qed
  have s: "(\<Sum>e\<leftarrow>makerMatches ?os ?t. fst (code_leg ?fs e)) = spec_maker_total spec_leg_shares ?os ?fs ?t"
    unfolding makerMatches_sum spec_maker_total_def
  proof (rule arg_cong[where f = sum_list], rule map_cong[OF refl])
    fix i assume "i \<in> set [0..<length ?os]"
    then have "i < length ?os" by simp
    from leg[OF this] show "(if leg_matches (?os ! i) ?t then fst (code_leg ?fs (?os ! i, i)) else 0)
        = (if i < length ?fs \<and> leg_matches (?os ! i) ?t then spec_leg_shares (?os ! i) (?fs ! i) else 0)"
      by (auto split: if_splits)
  qed
  have u: "(\<Sum>e\<leftarrow>makerMatches ?os ?t. snd (code_leg ?fs e)) = spec_maker_total spec_leg_usdc ?os ?fs ?t"
    unfolding makerMatches_sum spec_maker_total_def
  proof (rule arg_cong[where f = sum_list], rule map_cong[OF refl])
    fix i assume "i \<in> set [0..<length ?os]"
    then have "i < length ?os" by simp
    from leg[OF this] show "(if leg_matches (?os ! i) ?t then snd (code_leg ?fs (?os ! i, i)) else 0)
        = (if i < length ?fs \<and> leg_matches (?os ! i) ?t then spec_leg_usdc (?os ! i) (?fs ! i) else 0)"
      by (auto split: if_splits)
  qed
  show ?thesis
    unfolding maker_role_result[OF assms(1-4)] Let_def
    by (simp add: makerSums_sum s u)
qed


theorem maker_fill_sums_witness:
  "functionName (ex_call (ex_args (ex_order ''0x7a11'' ''0x7a12'' 100 500 0)
                      [ex_order ''0xABC1'' ''0x5161'' 1000 300 1] (Some 150) (Some 500) [500]))
     = ''matchOrders''
   \<and> \<not> leg_matches (ex_order ''0x7a11'' ''0x7a12'' 100 500 0) (toLowerCase ''0xAbC1'')
   \<and> makerMatches [ex_order ''0xABC1'' ''0x5161'' 1000 300 1] (toLowerCase ''0xAbC1'') \<noteq> []
   \<and> spec_maker_total spec_leg_shares [ex_order ''0xABC1'' ''0x5161'' 1000 300 1] [500]
        (toLowerCase ''0xAbC1'') = 500
   \<and> spec_maker_total spec_leg_usdc [ex_order ''0xABC1'' ''0x5161'' 1000 300 1] [500]
        (toLowerCase ''0xAbC1'') = 150
   \<and> map_option fb_shares (computeFillForTarget
        (Some (ex_call (ex_args (ex_order ''0x7a11'' ''0x7a12'' 100 500 0)
                      [ex_order ''0xABC1'' ''0x5161'' 1000 300 1] (Some 150) (Some 500) [500])))
        ''0xAbC1'') = Some (Some ''500'')
   \<and> map_option fb_usdc (computeFillForTarget
        (Some (ex_call (ex_args (ex_order ''0x7a11'' ''0x7a12'' 100 500 0)
                      [ex_order ''0xABC1'' ''0x5161'' 1000 300 1] (Some 150) (Some 500) [500])))
        ''0xAbC1'') = Some (Some ''150'')"
proof -
  let ?t = "ex_order ''0x7a11'' ''0x7a12'' 100 500 0"
  let ?m = "ex_order ''0xABC1'' ''0x5161'' 1000 300 1"
  let ?a = "ex_args ?t [?m] (Some 150) (Some 500) [500]"
  have h1: "functionName (ex_call ?a) = ''matchOrders''" by (simp add: ex_defs)
  have h2: "args (ex_call ?a) = Some ?a" by (simp add: ex_defs)
  have h3: "\<not> leg_matches (takerOrder ?a) (toLowerCase ''0xAbC1'')"
    by (simp add: ex_defs leg_matches_def field_is_def toLowerCase_def lower_char_def)
  have h4: "makerMatches (makerOrders ?a) (toLowerCase ''0xAbC1'') \<noteq> []"
    by (simp add: ex_defs makerMatches_def field_is_def toLowerCase_def lower_char_def)
  have wf: "\<forall>i < length (makerOrders ?a).
               i < length (makerFillAmounts ?a) \<and> leg_matches (makerOrders ?a ! i) (toLowerCase ''0xAbC1'')
               \<longrightarrow> (\<exists>m t. makerAmount (makerOrders ?a ! i) = Some m \<and> 0 < m
                          \<and> takerAmount (makerOrders ?a ! i) = Some t \<and> 0 \<le> t)
                    \<and> 0 \<le> makerFillAmounts ?a ! i"
    by (simp add: ex_defs)
  have s: "spec_maker_total spec_leg_shares [?m] [500] (toLowerCase ''0xAbC1'') = 500"
    by (simp add: spec_maker_total_def spec_leg_shares_def ex_defs leg_matches_def field_is_def
        toLowerCase_def lower_char_def)
  have u: "spec_maker_total spec_leg_usdc [?m] [500] (toLowerCase ''0xAbC1'') = 150"
    by (simp add: spec_maker_total_def spec_leg_usdc_def spec_ratio_def ex_defs leg_matches_def
        field_is_def toLowerCase_def lower_char_def)
  have mo: "makerOrders ?a = [?m]" "makerFillAmounts ?a = [500]" "takerOrder ?a = ?t"
    by (simp_all add: ex_args_def)
  from maker_fill_sums[OF h1 h2 h3 h4 wf]
  obtain fb where "computeFillForTarget (Some (ex_call ?a)) ''0xAbC1'' = Some fb"
    and "fb_shares fb = reported 500" and "fb_usdc fb = reported 150"
    unfolding mo s u by blast
  then show ?thesis using h1 h3 h4 s u
    by (simp add: mo reported_def String_500 String_150)
qed

text \<open>
  C2 as stated fails: a maker leg whose maker field is another address and whose signer
  field is the target is summed as well.
\<close>

theorem signer_leg_is_counted:
  "\<not> field_is (maker (ex_order ''0x0123'' ''0xABC1'' 1000 300 1)) (toLowerCase ''0xAbC1'')
   \<and> computeFillForTarget
       (Some (ex_call (ex_args (ex_order ''0x7a11'' ''0x7a12'' 100 500 0)
                        [ex_order ''0x0123'' ''0xABC1'' 1000 300 1] (Some 150) (Some 500) [500])))
       ''0xAbC1''
     = Some \<lparr>fb_role = MAKER, fb_side = BUY, fb_tokenId = Some ''7'',
              fb_shares = Some ''500'', fb_usdc = Some ''150''\<rparr>"
  by (simp add: ex_defs fill_eval String_500 String_150 String_7)

subsection \<open>C10: a maker total of zero\<close>

lemma code_leg_zero:
  "at_index fills i = Some 0 \<or> at_index fills i = None \<Longrightarrow> code_leg fills (ord, i) = (0, 0)"
  by (auto simp: code_leg_def computeMakerFill_def safeBigInt_def bigint_div_def
      split: option.splits)

text \<open>
  C10: when the role is MAKER and the sum of the maker shares (of the maker usdc) over
  the matching legs is exactly zero, the shares field (the usdc field) of the result is
  \<^verbatim>\<open>undefined\<close>, not the string \<open>''0''\<close>; so it is when every matching leg's entry of
  \<open>makerFillAmounts\<close> is \<open>0\<close>.
\<close>

theorem maker_zero_total_undefined:
  assumes "functionName d = ''matchOrders''" and "args d = Some a"
    and "\<not> leg_matches (takerOrder a) (toLowerCase addr)"
    and "makerMatches (makerOrders a) (toLowerCase addr) \<noteq> []"
  shows "\<exists>fb. computeFillForTarget (Some d) addr = Some fb \<and> fb_role fb = MAKER
     \<and> (fst (makerSums (makerMatches (makerOrders a) (toLowerCase addr)) (makerFillAmounts a) (0, 0)) = 0
          \<longrightarrow> fb_shares fb = None)
     \<and> (snd (makerSums (makerMatches (makerOrders a) (toLowerCase addr)) (makerFillAmounts a) (0, 0)) = 0
          \<longrightarrow> fb_usdc fb = None)
     \<and> ((\<forall>i < length (makerOrders a).
            i < length (makerFillAmounts a) \<and> leg_matches (makerOrders a ! i) (toLowerCase addr)
            \<longrightarrow> makerFillAmounts a ! i = 0)
          \<longrightarrow> fb_shares fb = None \<and> fb_usdc fb = None)"
proof -
  let ?os = "makerOrders a" and ?fs = "makerFillAmounts a" and ?t = "toLowerCase addr"
  have z: "makerSums (makerMatches ?os ?t) ?fs (0, 0) = (0, 0)"
    if all0: "\<forall>i < length ?os. i < length ?fs \<and> leg_matches (?os ! i) ?t \<longrightarrow> ?fs ! i = 0"
  proof -
    have leg: "(if leg_matches (?os ! i) ?t then code_leg ?fs (?os ! i, i) else (0, 0)) = (0, 0)"
      if "i < length ?os" for i
    proof (cases "leg_matches (?os ! i) ?t")
      case True
      have "at_index ?fs i = Some 0 \<or> at_index ?fs i = None"
        using all0 that True by (auto simp: at_index_def)
      then show ?thesis using True by (simp add: code_leg_zero)
    next
      case False
      then show ?thesis by simp
    qed
    have "(\<Sum>i\<leftarrow>[0..<length ?os]. if leg_matches (?os ! i) ?t then fst (code_leg ?fs (?os ! i, i)) else 0)
          = (\<Sum>i\<leftarrow>[0..<length ?os]. 0)"
    proof (rule arg_cong[where f = sum_list], rule map_cong[OF refl])
      fix i assume "i \<in> set [0..<length ?os]"
      then have "i < length ?os" by simp
      from leg[OF this]
      show "(if leg_matches (?os ! i) ?t then fst (code_leg ?fs (?os ! i, i)) else 0) = 0"
        by (auto split: if_splits)
    qed
    moreover
    have "(\<Sum>i\<leftarrow>[0..<length ?os]. if leg_matches (?os ! i) ?t then snd (code_leg ?fs (?os ! i, i)) else 0)
          = (\<Sum>i\<leftarrow>[0..<length ?os]. 0)"
    proof (rule arg_cong[where f = sum_list], rule map_cong[OF refl])
      fix i assume "i \<in> set [0..<length ?os]"
      then have "i < length ?os" by simp
      from leg[OF this]
      show "(if leg_matches (?os ! i) ?t then snd (code_leg ?fs (?os ! i, i)) else 0) = 0"
        by (auto split: if_splits)
    qed
    ultimately show ?thesis by (simp add: makerSums_sum makerMatches_sum)
  qed
  show ?thesis
    unfolding maker_role_result[OF assms] Let_def
    using z by (auto simp: reported_def)
qed

theorem maker_zero_total_undefined_witness:
  "functionName (ex_call (ex_args (ex_order ''0x7a11'' ''0x7a12'' 100 500 0)
                      [ex_order ''0xABC1'' ''0x5161'' 1000 300 0] (Some 0) (Some 0) [0]))
     = ''matchOrders''
   \<and> \<not> leg_matches (ex_order ''0x7a11'' ''0x7a12'' 100 500 0) (toLowerCase ''0xAbC1'')
   \<and> makerMatches [ex_order ''0xABC1'' ''0x5161'' 1000 300 0] (toLowerCase ''0xAbC1'') \<noteq> []
   \<and> computeFillForTarget
        (Some (ex_call (ex_args (ex_order ''0x7a11'' ''0x7a12'' 100 500 0)
                      [ex_order ''0xABC1'' ''0x5161'' 1000 300 0] (Some 0) (Some 0) [0])))
        ''0xAbC1''
      = Some \<lparr>fb_role = MAKER, fb_side = BUY, fb_tokenId = Some ''7'',
               fb_shares = None, fb_usdc = None\<rparr>"
proof -
  let ?t = "ex_order ''0x7a11'' ''0x7a12'' 100 500 0"
  let ?m = "ex_order ''0xABC1'' ''0x5161'' 1000 300 0"
  let ?a = "ex_args ?t [?m] (Some 0) (Some 0) [0]"
  have h1: "functionName (ex_call ?a) = ''matchOrders''" by (simp add: ex_defs)
  have h2: "args (ex_call ?a) = Some ?a" by (simp add: ex_defs)
  have h3: "\<not> leg_matches (takerOrder ?a) (toLowerCase ''0xAbC1'')"
    by (simp add: ex_defs leg_matches_def field_is_def toLowerCase_def lower_char_def)
  have h4: "makerMatches (makerOrders ?a) (toLowerCase ''0xAbC1'') \<noteq> []"
    by (simp add: ex_defs makerMatches_def field_is_def toLowerCase_def lower_char_def)
  have all0: "\<forall>i < length (makerOrders ?a).
            i < length (makerFillAmounts ?a) \<and> leg_matches (makerOrders ?a ! i) (toLowerCase ''0xAbC1'')
            \<longrightarrow> makerFillAmounts ?a ! i = 0"
    by (simp add: ex_defs)
  have mo: "makerOrders ?a = [?m]" "makerFillAmounts ?a = [0]" "takerOrder ?a = ?t"
    by (simp_all add: ex_args_def)
  from maker_zero_total_undefined[OF h1 h2 h3 h4] all0
  obtain fb where r: "computeFillForTarget (Some (ex_call ?a)) ''0xAbC1'' = Some fb"
    and "fb_role fb = MAKER" and "fb_shares fb = None" and "fb_usdc fb = None"
    by blast
  have e: "computeFillForTarget (Some (ex_call ?a)) ''0xAbC1''
      = Some \<lparr>fb_role = MAKER, fb_side = BUY, fb_tokenId = Some ''7'',
               fb_shares = None, fb_usdc = None\<rparr>"
    by (simp add: ex_defs fill_eval String_7)
  show ?thesis using h1 h3 h4 e r by (simp add: mo)
qed

section \<open>C6: the recency set\<close>

lemma seen_present: "h \<in> hset c \<Longrightarrow> h \<noteq> [] \<Longrightarrow> seen (Some h) c = (True, c)"
  by (simp add: seen_def)

lemma seen_fresh:
  assumes "cache_inv c" "h \<notin> hset c" "h \<noteq> []"
  shows "fst (seen (Some h) c) = False"
    and "deque (snd (seen (Some h) c))
           = drop (length (deque c @ [h]) - HASH_CACHE_SIZE) (deque c @ [h])"
    and "cache_inv (snd (seen (Some h) c))"
    and "h \<in> hset (snd (seen (Some h) c))"
proof -
  let ?d = "deque c @ [h]"
  from assms have inv: "hset c = set (deque c)" "distinct (deque c)" "[] \<notin> set (deque c)"
    "length (deque c) \<le> HASH_CACHE_SIZE" by (auto simp: cache_inv_def)
  have dd: "distinct ?d" "[] \<notin> set ?d" using inv assms by auto
  show "fst (seen (Some h) c) = False"
    using assms by (auto simp: seen_def Let_def split: list.splits)
  show "deque (snd (seen (Some h) c)) = drop (length ?d - HASH_CACHE_SIZE) ?d"
  proof (cases "HASH_CACHE_SIZE < length ?d")
    case True
    then have l: "length ?d = Suc HASH_CACHE_SIZE" using inv(4) by simp
    obtain o' rest where d: "?d = o' # rest" by (cases ?d) auto
    have "seen (Some h) c
           = (False, \<lparr>deque = rest, hset = (if o' \<noteq> [] then insert h (hset c) - {o'}
                                             else insert h (hset c))\<rparr>)"
      using assms(2,3) True d by (simp add: seen_def Let_def)
    moreover have "drop (length ?d - HASH_CACHE_SIZE) ?d = rest"
      unfolding l by (simp add: d)
    ultimately show ?thesis by simp
  next
    case False
    then show ?thesis using assms(2,3) by (simp add: seen_def Let_def)
  qed
  show "cache_inv (snd (seen (Some h) c))"
  proof (cases "HASH_CACHE_SIZE < length ?d")
    case True
    then have l: "length ?d = Suc HASH_CACHE_SIZE" using inv(4) by simp
    obtain o' rest where d: "?d = o' # rest" by (cases ?d) auto
    have o: "o' \<noteq> []" "o' \<notin> set rest" "distinct rest" "[] \<notin> set rest"
      using dd unfolding d by auto
    have sd: "insert h (hset c) = set ?d" using inv(1) by auto
    have "seen (Some h) c = (False, \<lparr>deque = rest, hset = insert h (hset c) - {o'}\<rparr>)"
      using assms(2,3) True d o by (simp add: seen_def Let_def)
    moreover have "insert h (hset c) - {o'} = set rest"
      unfolding sd d using o by auto
    moreover have "length rest = HASH_CACHE_SIZE" using l unfolding d by simp
    ultimately show ?thesis using o by (simp add: cache_inv_def)
  next
    case False
    then have "seen (Some h) c = (False, \<lparr>deque = ?d, hset = insert h (hset c)\<rparr>)"
      using assms(2,3) by (simp add: seen_def Let_def)
    then show ?thesis using dd inv False by (auto simp: cache_inv_def)
  qed
  show "h \<in> hset (snd (seen (Some h) c))"
  proof (cases "HASH_CACHE_SIZE < length ?d")
    case True
    obtain o' rest where d: "?d = o' # rest" by (cases ?d) auto
    have "1 \<le> HASH_CACHE_SIZE" by (simp add: HASH_CACHE_SIZE_def)
    then have "1 < length ?d" using True by linarith
    then have "rest \<noteq> []" unfolding d by auto
    then have "last rest = h" using d by (metis last_ConsR last_snoc)
    then have "h \<in> set rest" using \<open>rest \<noteq> []\<close> last_in_set by metis
    then have "o' \<noteq> h" using dd(1) unfolding d by auto
    then show ?thesis using assms(2,3) True d by (auto simp: seen_def Let_def)
  next
    case False
    then show ?thesis using assms(2,3) by (simp add: seen_def Let_def)
  qed
qed

lemma seen_all_fresh:
  assumes "cache_inv c" "distinct hs" "[] \<notin> set hs" "set hs \<inter> hset c = {}"
  shows "deque (seen_all hs c)
           = drop (length (deque c @ hs) - HASH_CACHE_SIZE) (deque c @ hs)
         \<and> cache_inv (seen_all hs c)"
  using assms
proof (induction hs arbitrary: c)
  case Nil
  then show ?case by (simp add: cache_inv_def)
next
  case (Cons h hs)
  let ?c = "snd (seen (Some h) c)"
  let ?d = "deque c @ [h]"
  have hf: "h \<notin> hset c" "h \<noteq> []" using Cons.prems by auto
  note sf = seen_fresh[OF Cons.prems(1) hf]
  have sub: "hset ?c \<subseteq> insert h (hset c)"
    using sf(2,3) Cons.prems(1) by (auto simp: cache_inv_def dest: in_set_dropD)
  have disj: "set hs \<inter> hset ?c = {}" using sub Cons.prems(2,4) by auto
  from Cons.IH[OF sf(3) _ _ disj] Cons.prems(2,3)
  have ih: "deque (seen_all hs ?c)
              = drop (length (deque ?c @ hs) - HASH_CACHE_SIZE) (deque ?c @ hs)"
    and inv: "cache_inv (seen_all hs ?c)" by auto
  have len: "length (deque c) \<le> HASH_CACHE_SIZE" using Cons.prems(1) by (simp add: cache_inv_def)
  have "drop (length (deque ?c @ hs) - HASH_CACHE_SIZE) (deque ?c @ hs)
          = drop (length (deque c @ h # hs) - HASH_CACHE_SIZE) (deque c @ h # hs)"
  proof (cases "HASH_CACHE_SIZE < length ?d")
    case True
    then have l: "length (deque c) = HASH_CACHE_SIZE" using len by simp
    obtain o' rest where d: "deque c = o' # rest"
      using l by (cases "deque c") (auto simp: HASH_CACHE_SIZE_def)
    have dc: "deque ?c = rest @ [h]" unfolding sf(2) using l d by simp
    have a: "length (deque ?c @ hs) - HASH_CACHE_SIZE = length hs"
      unfolding dc using l d by simp
    have b: "length (deque c @ h # hs) - HASH_CACHE_SIZE = Suc (length hs)"
      using l by simp
    show ?thesis unfolding a b by (simp add: dc d)
  next
    case False
    then have "deque ?c = ?d" unfolding sf(2) by simp
    then show ?thesis by simp
  qed
  then show ?case using ih inv by simp
qed

lemma ex_hashes_props:
  "distinct (ex_hashes n)" "[] \<notin> set (ex_hashes n)" "length (ex_hashes n) = n"
proof -
  have "inj_on (\<lambda>i. replicate (Suc i) CHR ''a'') (set [0..<n])"
    by (rule inj_onI) (metis length_replicate nat.inject)
  then show "distinct (ex_hashes n)" by (simp add: ex_hashes_def distinct_map)
  show "[] \<notin> set (ex_hashes n)" by (auto simp: ex_hashes_def)
  show "length (ex_hashes n) = n" by (simp add: ex_hashes_def)
qed

lemma seen_preserves_inv: "cache_inv c \<Longrightarrow> cache_inv (snd (seen h c))"
proof (cases h)
  case None
  then show "cache_inv c \<Longrightarrow> cache_inv (snd (seen h c))" by (simp add: seen_def)
next
  case (Some x)
  assume inv: "cache_inv c"
  show "cache_inv (snd (seen h c))"
  proof (cases "x = [] \<or> x \<in> hset c")
    case True
    then show ?thesis using inv Some by (auto simp: seen_def)
  next
    case False
    then show ?thesis using seen_fresh(3)[OF inv, of x] Some by simp
  qed
qed

lemma seen_calls_inv: "cache_inv c \<Longrightarrow> cache_inv (seen_calls calls c)"
  by (induction calls arbitrary: c) (simp_all add: seen_preserves_inv)

lemma seen_member: "cache_inv c \<Longrightarrow> h \<in> hset c \<Longrightarrow> seen (Some h) c = (True, c)"
  by (rule seen_present) (auto simp: cache_inv_def)

text \<open>
  C6: the capacity is \<open>1000\<close>. After \<open>capacity + 1\<close> different (non-empty) hashes have
  been passed to \<open>seen\<close> on a new cache, exactly the first of them has been evicted: the
  deque and the set hold the others. Asking for the evicted hash answers \<open>False\<close> and
  admits it again. In every state of the cache, that is in every state that satisfies
  the invariant, and so in every state reached from a new cache by calls of \<open>seen\<close>,
  asking for a hash that is in the set answers \<open>True\<close> and leaves the cache as it is.
\<close>

theorem seen_evicts_oldest:
  "(distinct hs \<and> [] \<notin> set hs \<and> length hs = Suc HASH_CACHE_SIZE \<longrightarrow>
      deque (seen_all hs makeHashCache) = tl hs
      \<and> hset (seen_all hs makeHashCache) = set hs - {hd hs}
      \<and> fst (seen (Some (hd hs)) (seen_all hs makeHashCache)) = False
      \<and> hd hs \<in> hset (snd (seen (Some (hd hs)) (seen_all hs makeHashCache)))
      \<and> (\<forall>h \<in> hset (seen_all hs makeHashCache).
            seen (Some h) (seen_all hs makeHashCache) = (True, seen_all hs makeHashCache)))
   \<and> HASH_CACHE_SIZE = 1000
   \<and> (cache_inv c \<and> h \<in> hset c \<longrightarrow> seen (Some h) c = (True, c))
   \<and> cache_inv (seen_calls calls makeHashCache)
   \<and> (g \<in> hset (seen_calls calls makeHashCache) \<longrightarrow>
        seen (Some g) (seen_calls calls makeHashCache) = (True, seen_calls calls makeHashCache))"
proof (intro conjI impI)
  have inv0: "cache_inv makeHashCache" by (simp add: cache_inv_def makeHashCache_def)
  show "HASH_CACHE_SIZE = 1000" by (simp add: HASH_CACHE_SIZE_def)
  show "cache_inv (seen_calls calls makeHashCache)" using inv0 by (rule seen_calls_inv)
  show "seen (Some h) c = (True, c)" if "cache_inv c \<and> h \<in> hset c"
    using that by (simp add: seen_member)
  show "seen (Some g) (seen_calls calls makeHashCache) = (True, seen_calls calls makeHashCache)"
    if "g \<in> hset (seen_calls calls makeHashCache)"
    using seen_calls_inv[OF inv0] that by (rule seen_member)
  assume a: "distinct hs \<and> [] \<notin> set hs \<and> length hs = Suc HASH_CACHE_SIZE"
  let ?c = "seen_all hs makeHashCache"
  from a have a1: "distinct hs" and a2: "[] \<notin> set hs" and a3: "length hs = Suc HASH_CACHE_SIZE"
    by auto
  from seen_all_fresh[OF inv0 a1 a2]
  have dq: "deque ?c = drop (length hs - HASH_CACHE_SIZE) hs" and inv: "cache_inv ?c"
    by (simp_all add: makeHashCache_def)
  obtain x xs where hs: "hs = x # xs" using a3 by (cases hs) auto
  show d: "deque ?c = tl hs" using dq a3 by (simp add: hs)
  show s: "hset ?c = set hs - {hd hs}"
    using inv d a1 by (auto simp: cache_inv_def hs)
  have nin: "hd hs \<notin> hset ?c" using s by simp
  have ne: "hd hs \<noteq> []" using a2 by (auto simp: hs)
  show "fst (seen (Some (hd hs)) ?c) = False" by (rule seen_fresh(1)[OF inv nin ne])
  show "hd hs \<in> hset (snd (seen (Some (hd hs)) ?c))" by (rule seen_fresh(4)[OF inv nin ne])
  show "\<forall>h \<in> hset ?c. seen (Some h) ?c = (True, ?c)"
    using inv by (auto simp: seen_member)
qed

theorem seen_evicts_oldest_witness:
  "distinct (ex_hashes 1001) \<and> [] \<notin> set (ex_hashes 1001)
   \<and> length (ex_hashes 1001) = Suc HASH_CACHE_SIZE
   \<and> deque (seen_all (ex_hashes 1001) makeHashCache) = tl (ex_hashes 1001)
   \<and> hset (seen_all (ex_hashes 1001) makeHashCache) = set (ex_hashes 1001) - {hd (ex_hashes 1001)}
   \<and> fst (seen (Some (hd (ex_hashes 1001))) (seen_all (ex_hashes 1001) makeHashCache)) = False
   \<and> hd (ex_hashes 1001)
        \<in> hset (snd (seen (Some (hd (ex_hashes 1001))) (seen_all (ex_hashes 1001) makeHashCache)))
   \<and> cache_inv \<lparr>deque = [''0xa1''], hset = {''0xa1''}\<rparr>
   \<and> ''0xa1'' \<in> hset \<lparr>deque = [''0xa1''], hset = {''0xa1''}\<rparr>
   \<and> seen (Some ''0xa1'') \<lparr>deque = [''0xa1''], hset = {''0xa1''}\<rparr>
        = (True, \<lparr>deque = [''0xa1''], hset = {''0xa1''}\<rparr>)
   \<and> seen_calls [Some ''0xa1'', None, Some ''0xb2''] makeHashCache
        = \<lparr>deque = [''0xa1'', ''0xb2''], hset = {''0xb2'', ''0xa1''}\<rparr>
   \<and> ''0xb2'' \<in> hset (seen_calls [Some ''0xa1'', None, Some ''0xb2''] makeHashCache)
   \<and> seen (Some ''0xb2'') (seen_calls [Some ''0xa1'', None, Some ''0xb2''] makeHashCache)
        = (True, seen_calls [Some ''0xa1'', None, Some ''0xb2''] makeHashCache)"
proof -
  let ?c = "\<lparr>deque = [''0xa1''], hset = {''0xa1''}\<rparr>"
  let ?calls = "[Some ''0xa1'', None, Some ''0xb2'']"
  have l: "length (ex_hashes 1001) = Suc HASH_CACHE_SIZE"
    by (simp add: ex_hashes_props HASH_CACHE_SIZE_def)
  have i: "cache_inv ?c" by (simp add: cache_inv_def HASH_CACHE_SIZE_def)
  have m: "''0xa1'' \<in> hset ?c" by simp
  have r: "seen_calls ?calls makeHashCache
        = \<lparr>deque = [''0xa1'', ''0xb2''], hset = {''0xb2'', ''0xa1''}\<rparr>"
    by (simp add: seen_def makeHashCache_def HASH_CACHE_SIZE_def Let_def)
  have g: "''0xb2'' \<in> hset (seen_calls ?calls makeHashCache)" unfolding r by simp
  note t = seen_evicts_oldest[where hs = "ex_hashes 1001" and c = ?c and h = "''0xa1''"
      and calls = ?calls and g = "''0xb2''"]
  from t ex_hashes_props(1,2) l
  have e: "deque (seen_all (ex_hashes 1001) makeHashCache) = tl (ex_hashes 1001)"
    "hset (seen_all (ex_hashes 1001) makeHashCache) = set (ex_hashes 1001) - {hd (ex_hashes 1001)}"
    "fst (seen (Some (hd (ex_hashes 1001))) (seen_all (ex_hashes 1001) makeHashCache)) = False"
    "hd (ex_hashes 1001)
        \<in> hset (snd (seen (Some (hd (ex_hashes 1001))) (seen_all (ex_hashes 1001) makeHashCache)))"
    by blast+
  from t i m have s1: "seen (Some ''0xa1'') ?c = (True, ?c)" by blast
  from t g have s2: "seen (Some ''0xb2'') (seen_calls ?calls makeHashCache)
        = (True, seen_calls ?calls makeHashCache)" by blast
  show ?thesis
    using ex_hashes_props(1,2) l e i m s1 r g s2 by (intro conjI) assumption+
qed

section \<open>C7: the single-flight TTL cache\<close>





section \<open>C8: the order placer\<close>

lemma caught_create_and_post:
  "(case create_and_post cl intent creation created ot of
      (Inl err, calls) \<Rightarrow> (Inr (Skipped intent err), calls)
    | (Inr r, calls) \<Rightarrow> (Inr r, calls))
   = (case created of
        Inl err \<Rightarrow> (Inr (Skipped intent err), [creation])
      | Inr ord \<Rightarrow>
          (case postOrder cl ord ot of
             Inl err \<Rightarrow> (Inr (Skipped intent err), [creation, PostOrder ord ot])
           | Inr res \<Rightarrow>
               (Inr (Posted intent (case orderId res of Some i \<Rightarrow> Inl i | None \<Rightarrow> Inr res)),
                [creation, PostOrder ord ot])))"
  by (auto simp: create_and_post_def split: sum.splits)

lemma created_cases:
  assumes "r = (case created of
        Inl err \<Rightarrow> (Inr (Skipped intent err), [creation])
      | Inr ord \<Rightarrow>
          (case postOrder cl ord ot of
             Inl err \<Rightarrow> (Inr (Skipped intent err), [creation, PostOrder ord ot])
           | Inr res \<Rightarrow>
               (Inr (Posted intent (case orderId res of Some i \<Rightarrow> Inl i | None \<Rightarrow> Inr res)),
                [creation, PostOrder ord ot])))"
  shows "(\<exists>err. created = Inl err \<and> r = (Inr (Skipped intent err), [creation]))
       \<or> (\<exists>ord err. created = Inr ord \<and> postOrder cl ord ot = Inl err
              \<and> r = (Inr (Skipped intent err), [creation, PostOrder ord ot]))
       \<or> (\<exists>ord res i. created = Inr ord \<and> postOrder cl ord ot = Inr res \<and> orderId res = Some i
              \<and> r = (Inr (Posted intent (Inl i)), [creation, PostOrder ord ot]))
       \<or> (\<exists>ord res. created = Inr ord \<and> postOrder cl ord ot = Inr res \<and> orderId res = None
              \<and> r = (Inr (Posted intent (Inr res)), [creation, PostOrder ord ot]))"
proof (cases created)
  case (Inl err)
  then show ?thesis using assms by simp
next
  case (Inr ord)
  show ?thesis
  proof (cases "postOrder cl ord ot")
    case (Inl err)
    then show ?thesis using assms Inr by simp
  next
    case r: (Inr res)
    then show ?thesis using assms Inr by (cases "orderId res") simp_all
  qed
qed

lemma place_try_cases:
  "place_try cl configured intent = (Inr (Skipped intent ''amount rounded to zero''), [])
   \<or> place_try cl configured intent = (Inr (Skipped intent ''price/size rounded to zero''), [])
   \<or> (\<exists>a. place_try cl configured intent =
            create_and_post cl intent (CreateMarketOrder a) (createMarketOrder cl a)
              (toOrderType configured))
   \<or> (\<exists>a. place_try cl configured intent =
            create_and_post cl intent (CreateOrder a) (createOrder cl a) (toOrderType configured))"
proof (cases "toOrderType configured = FOK \<or> toOrderType configured = FAK")
  case market: True
  show ?thesis
  proof (cases "intent_side intent = Side_BUY")
    case True
    show ?thesis
    proof (cases "js_le (roundToDecimals (intent_notional intent) 2) (Fin 0)")
      case z: True
      then show ?thesis using market True by (simp add: place_try_def Let_def)
    next
      case False
      then have "place_try cl configured intent =
          create_and_post cl intent
            (CreateMarketOrder \<lparr>mo_tokenID = intent_tokenId intent,
                mo_amount = roundToDecimals (intent_notional intent) 2,
                mo_side = intent_side intent, mo_price = intent_price intent\<rparr>)
            (createMarketOrder cl \<lparr>mo_tokenID = intent_tokenId intent,
                mo_amount = roundToDecimals (intent_notional intent) 2,
                mo_side = intent_side intent, mo_price = intent_price intent\<rparr>)
            (toOrderType configured)"
        using market True by (simp add: place_try_def Let_def)
      then show ?thesis by blast
    qed
  next
    case False
    show ?thesis
    proof (cases "js_le (roundToDecimals (intent_size intent) 4) (Fin 0)")
      case z: True
      then show ?thesis using market False by (simp add: place_try_def Let_def)
    next
      case nz: False
      then have "place_try cl configured intent =
          create_and_post cl intent
            (CreateMarketOrder \<lparr>mo_tokenID = intent_tokenId intent,
                mo_amount = roundToDecimals (intent_size intent) 4,
                mo_side = intent_side intent, mo_price = intent_price intent\<rparr>)
            (createMarketOrder cl \<lparr>mo_tokenID = intent_tokenId intent,
                mo_amount = roundToDecimals (intent_size intent) 4,
                mo_side = intent_side intent, mo_price = intent_price intent\<rparr>)
            (toOrderType configured)"
        using market False by (simp add: place_try_def Let_def)
      then show ?thesis by blast
    qed
  qed
next
  case resting: False
  show ?thesis
  proof (cases "js_le (roundToDecimals (intent_price intent) 4) (Fin 0)
                \<or> js_le (roundToDecimals (intent_size intent) 4) (Fin 0)")
    case True
    then show ?thesis using resting by (simp add: place_try_def Let_def)
  next
    case False
    then have "place_try cl configured intent =
        create_and_post cl intent
          (CreateOrder \<lparr>lo_tokenID = intent_tokenId intent,
              lo_price = roundToDecimals (intent_price intent) 4,
              lo_size = roundToDecimals (intent_size intent) 4,
              lo_side = intent_side intent\<rparr>)
          (createOrder cl \<lparr>lo_tokenID = intent_tokenId intent,
              lo_price = roundToDecimals (intent_price intent) 4,
              lo_size = roundToDecimals (intent_size intent) 4,
              lo_side = intent_side intent\<rparr>)
          (toOrderType configured)"
      using resting by (simp add: place_try_def Let_def)
    then show ?thesis by blast
  qed
qed

lemma place_enabled_cases:
  assumes "enabled p" and "client p = Some cl" and "ot = toOrderType (placer_orderType p)"
  shows "place p intent = (Inr (Skipped intent ''amount rounded to zero''), [])
       \<or> place p intent = (Inr (Skipped intent ''price/size rounded to zero''), [])
       \<or> (\<exists>creation created.
             ((\<exists>a. creation = CreateMarketOrder a \<and> created = createMarketOrder cl a)
              \<or> (\<exists>a. creation = CreateOrder a \<and> created = createOrder cl a))
             \<and> ((\<exists>err. created = Inl err
                     \<and> place p intent = (Inr (Skipped intent err), [creation]))
                \<or> (\<exists>ord err. created = Inr ord \<and> postOrder cl ord ot = Inl err
                     \<and> place p intent = (Inr (Skipped intent err), [creation, PostOrder ord ot]))
                \<or> (\<exists>ord res i. created = Inr ord \<and> postOrder cl ord ot = Inr res
                     \<and> orderId res = Some i
                     \<and> place p intent = (Inr (Posted intent (Inl i)), [creation, PostOrder ord ot]))
                \<or> (\<exists>ord res. created = Inr ord \<and> postOrder cl ord ot = Inr res
                     \<and> orderId res = None
                     \<and> place p intent = (Inr (Posted intent (Inr res)), [creation, PostOrder ord ot]))))"
proof -
  have pl: "place p intent =
      (case place_try cl (placer_orderType p) intent of
             (Inl err, calls) \<Rightarrow> (Inr (Skipped intent err), calls)
           | (Inr r, calls) \<Rightarrow> (Inr r, calls))"
    using assms by (simp add: place_def)
  have run: "\<exists>creation created.
             ((\<exists>a. creation = CreateMarketOrder a \<and> created = createMarketOrder cl a)
              \<or> (\<exists>a. creation = CreateOrder a \<and> created = createOrder cl a))
             \<and> ((\<exists>err. created = Inl err
                     \<and> place p intent = (Inr (Skipped intent err), [creation]))
                \<or> (\<exists>ord err. created = Inr ord \<and> postOrder cl ord ot = Inl err
                     \<and> place p intent = (Inr (Skipped intent err), [creation, PostOrder ord ot]))
                \<or> (\<exists>ord res i. created = Inr ord \<and> postOrder cl ord ot = Inr res
                     \<and> orderId res = Some i
                     \<and> place p intent = (Inr (Posted intent (Inl i)), [creation, PostOrder ord ot]))
                \<or> (\<exists>ord res. created = Inr ord \<and> postOrder cl ord ot = Inr res
                     \<and> orderId res = None
                     \<and> place p intent = (Inr (Posted intent (Inr res)), [creation, PostOrder ord ot])))"
    if k: "(\<exists>a. creation = CreateMarketOrder a \<and> created = createMarketOrder cl a)
              \<or> (\<exists>a. creation = CreateOrder a \<and> created = createOrder cl a)"
      and t: "place_try cl (placer_orderType p) intent = create_and_post cl intent creation created ot"
    for creation created
  proof -
    have "place p intent = (case created of
        Inl err \<Rightarrow> (Inr (Skipped intent err), [creation])
      | Inr ord \<Rightarrow>
          (case postOrder cl ord ot of
             Inl err \<Rightarrow> (Inr (Skipped intent err), [creation, PostOrder ord ot])
           | Inr res \<Rightarrow>
               (Inr (Posted intent (case orderId res of Some i \<Rightarrow> Inl i | None \<Rightarrow> Inr res)),
                [creation, PostOrder ord ot])))"
      unfolding pl t by (rule caught_create_and_post)
    from created_cases[OF this]
    have r: "(\<exists>err. created = Inl err
                     \<and> place p intent = (Inr (Skipped intent err), [creation]))
                \<or> (\<exists>ord err. created = Inr ord \<and> postOrder cl ord ot = Inl err
                     \<and> place p intent = (Inr (Skipped intent err), [creation, PostOrder ord ot]))
                \<or> (\<exists>ord res i. created = Inr ord \<and> postOrder cl ord ot = Inr res
                     \<and> orderId res = Some i
                     \<and> place p intent = (Inr (Posted intent (Inl i)), [creation, PostOrder ord ot]))
                \<or> (\<exists>ord res. created = Inr ord \<and> postOrder cl ord ot = Inr res
                     \<and> orderId res = None
                     \<and> place p intent = (Inr (Posted intent (Inr res)), [creation, PostOrder ord ot]))" .
    show ?thesis
      by (rule exI[where x = creation], rule exI[where x = created], rule conjI, rule k, rule r)
  qed
  from place_try_cases[of cl "placer_orderType p" intent]
  show ?thesis
  proof (elim disjE exE)
    assume "place_try cl (placer_orderType p) intent
              = (Inr (Skipped intent ''amount rounded to zero''), [])"
    then have "place p intent = (Inr (Skipped intent ''amount rounded to zero''), [])"
      unfolding pl by simp
    then show ?thesis by (rule disjI1)
  next
    assume "place_try cl (placer_orderType p) intent
              = (Inr (Skipped intent ''price/size rounded to zero''), [])"
    then have "place p intent = (Inr (Skipped intent ''price/size rounded to zero''), [])"
      unfolding pl by simp
    then show ?thesis by (rule disjI2[OF disjI1])
  next
    fix a
    assume "place_try cl (placer_orderType p) intent =
            create_and_post cl intent (CreateMarketOrder a) (createMarketOrder cl a)
              (toOrderType (placer_orderType p))"
    then have t: "place_try cl (placer_orderType p) intent =
            create_and_post cl intent (CreateMarketOrder a) (createMarketOrder cl a) ot"
      by (simp add: assms(3))
    have k: "(\<exists>b. CreateMarketOrder a = CreateMarketOrder b
                  \<and> createMarketOrder cl a = createMarketOrder cl b)
             \<or> (\<exists>b. CreateMarketOrder a = CreateOrder b
                  \<and> createMarketOrder cl a = createOrder cl b)"
      by blast
    from run[OF k t] show ?thesis by (rule disjI2[OF disjI2])
  next
    fix a
    assume "place_try cl (placer_orderType p) intent =
            create_and_post cl intent (CreateOrder a) (createOrder cl a)
              (toOrderType (placer_orderType p))"
    then have t: "place_try cl (placer_orderType p) intent =
            create_and_post cl intent (CreateOrder a) (createOrder cl a) ot"
      by (simp add: assms(3))
    have k: "(\<exists>b. CreateOrder a = CreateMarketOrder b
                  \<and> createOrder cl a = createMarketOrder cl b)
             \<or> (\<exists>b. CreateOrder a = CreateOrder b \<and> createOrder cl a = createOrder cl b)"
      by blast
    from run[OF k t] show ?thesis by (rule disjI2[OF disjI2])
  qed
qed

lemma place_never_throws: "\<exists>r. fst (place p intent) = Inr r"
proof (cases "if enabled p then client p else None")
  case None
  then show ?thesis by (simp add: place_def)
next
  case (Some cl)
  then show ?thesis
    by (cases "place_try cl (placer_orderType p) intent")
       (auto simp: place_def split: sum.splits)
qed

lemma createCopyPlacer_disabled:
  assumes "createCopyPlacer wallet mk_client config = Inr p"
    and "copySimulateOnly config \<or> \<not> string_truthy (privateKey config)
         \<or> \<not> string_truthy (clobApiKey config) \<or> \<not> string_truthy (clobApiSecret config)
         \<or> \<not> string_truthy (clobApiPassphrase config)"
  shows "\<not> enabled p"
  using assms
  by (auto simp: createCopyPlacer_def Let_def string_truthy_def
      split: option.splits sum.splits if_splits)

lemma createCopyPlacer_enabled:
  assumes "createCopyPlacer wallet mk_client config = Inr p"
    and "\<not> copySimulateOnly config" and "string_truthy (privateKey config)"
    and "string_truthy (clobApiKey config)" and "string_truthy (clobApiSecret config)"
    and "string_truthy (clobApiPassphrase config)"
  shows "enabled p \<and> (\<exists>cl. client p = Some cl) \<and> placer_orderType p = copyOrderType config"
  using assms
  by (auto simp: createCopyPlacer_def Let_def string_truthy_def
      split: option.splits sum.splits if_splits)

lemma fl_100: "fl 100 = Fin 100" using fl_of_nat_exact[of 100] by simp
lemma fl_5000: "fl 5000 = Fin 5000" using fl_of_nat_exact[of 5000] by simp
lemma fl_50: "fl 50 = Fin 50" using fl_of_nat_exact[of 50] by simp

lemma roundToDecimals_50: "roundToDecimals (Fin 50) 2 = Fin 50"
proof -
  have "\<lfloor>(5000::rat) + 1 / 2\<rfloor> = 5000" by (rule floor_unique) simp_all
  then show ?thesis by (simp add: roundToDecimals_def fl_100 fl_5000 fl_50 Let_def)
qed

lemma ex_placer:
  "createCopyPlacer ex_wallet (\<lambda>w. cl) (ex_config sim)
     = Inr \<lparr>enabled = \<not> sim, client = (if sim then None else Some cl), placer_orderType = FAK\<rparr>"
  by (simp add: createCopyPlacer_def ex_wallet_def ex_config_def string_truthy_def Let_def)

lemma ex_place_posted:
  "place \<lparr>enabled = True,
          client = Some (ex_client (Inr 1) (Inr \<lparr>orderId = Some ''0xorder'', body = ''ok''\<rparr>)),
          placer_orderType = FAK\<rparr> ex_intent
   = (Inr (Posted ex_intent (Inl ''0xorder'')),
      [CreateMarketOrder \<lparr>mo_tokenID = ''7'', mo_amount = Fin 50, mo_side = Side_BUY,
                          mo_price = Fin (1 / 2)\<rparr>,
       PostOrder 1 FAK])"
  by (simp add: place_def place_try_def toOrderType_def Let_def ex_intent_def roundToDecimals_50
      create_and_post_def ex_client_def)

lemma ex_place_create_fails:
  "place \<lparr>enabled = True,
          client = Some (ex_client (Inl ''Error: no match'')
                           (Inr \<lparr>orderId = Some ''0xorder'', body = ''ok''\<rparr>)),
          placer_orderType = FAK\<rparr> ex_intent
   = (Inr (Skipped ex_intent ''Error: no match''),
      [CreateMarketOrder \<lparr>mo_tokenID = ''7'', mo_amount = Fin 50, mo_side = Side_BUY,
                          mo_price = Fin (1 / 2)\<rparr>])"
  by (simp add: place_def place_try_def toOrderType_def Let_def ex_intent_def roundToDecimals_50
      create_and_post_def ex_client_def)

lemma ex_place_post_fails:
  "place \<lparr>enabled = True,
          client = Some (ex_client (Inr 1) (Inl ''Error: 400'')),
          placer_orderType = FAK\<rparr> ex_intent
   = (Inr (Skipped ex_intent ''Error: 400''),
      [CreateMarketOrder \<lparr>mo_tokenID = ''7'', mo_amount = Fin 50, mo_side = Side_BUY,
                          mo_price = Fin (1 / 2)\<rparr>,
       PostOrder 1 FAK])"
  by (simp add: place_def place_try_def toOrderType_def Let_def ex_intent_def roundToDecimals_50
      create_and_post_def ex_client_def)

text \<open>
  C8, amended: a placer built from a configuration in which the simulate-only flag is
  set, or the private key or one of the three API credentials is missing, answers
  \<^verbatim>\<open>simulated\<close> and makes no client call. No call of \<open>place\<close> throws. A placer built with
  every credential present and the flag unset either skips because the amount (or price
  or size) rounds to zero, without a client call, or makes one creation call; then an
  error of the creation or of the post is caught and gives \<^verbatim>\<open>skipped\<close> with the error
  text, and a response of the post gives \<^verbatim>\<open>posted\<close> with the order id of the response
  when it carries one, and with the response itself when it carries none.
\<close>

theorem place_results:
  "(createCopyPlacer wallet mk_client config = Inr p
      \<and> (copySimulateOnly config \<or> \<not> string_truthy (privateKey config)
          \<or> \<not> string_truthy (clobApiKey config) \<or> \<not> string_truthy (clobApiSecret config)
          \<or> \<not> string_truthy (clobApiPassphrase config))
      \<longrightarrow> place p intent = (Inr (Simulated intent), []))
   \<and> (\<exists>r. fst (place q intent) = Inr r)
   \<and> (createCopyPlacer wallet mk_client config = Inr p
      \<and> \<not> copySimulateOnly config \<and> string_truthy (privateKey config)
      \<and> string_truthy (clobApiKey config) \<and> string_truthy (clobApiSecret config)
      \<and> string_truthy (clobApiPassphrase config)
      \<longrightarrow> (\<exists>cl. client p = Some cl
            \<and> (place p intent = (Inr (Skipped intent ''amount rounded to zero''), [])
               \<or> place p intent = (Inr (Skipped intent ''price/size rounded to zero''), [])
               \<or> (\<exists>creation created.
                     ((\<exists>a. creation = CreateMarketOrder a \<and> created = createMarketOrder cl a)
                      \<or> (\<exists>a. creation = CreateOrder a \<and> created = createOrder cl a))
                     \<and> ((\<exists>err. created = Inl err
                             \<and> place p intent = (Inr (Skipped intent err), [creation]))
                        \<or> (\<exists>ord err. created = Inr ord
                             \<and> postOrder cl ord (toOrderType (copyOrderType config)) = Inl err
                             \<and> place p intent =
                                 (Inr (Skipped intent err),
                                  [creation, PostOrder ord (toOrderType (copyOrderType config))]))
                        \<or> (\<exists>ord res i. created = Inr ord
                             \<and> postOrder cl ord (toOrderType (copyOrderType config)) = Inr res
                             \<and> orderId res = Some i
                             \<and> place p intent =
                                 (Inr (Posted intent (Inl i)),
                                  [creation, PostOrder ord (toOrderType (copyOrderType config))]))
                        \<or> (\<exists>ord res. created = Inr ord
                             \<and> postOrder cl ord (toOrderType (copyOrderType config)) = Inr res
                             \<and> orderId res = None
                             \<and> place p intent =
                                 (Inr (Posted intent (Inr res)),
                                  [creation, PostOrder ord (toOrderType (copyOrderType config))])))))))"
proof (intro conjI impI)
  assume a: "createCopyPlacer wallet mk_client config = Inr p
      \<and> (copySimulateOnly config \<or> \<not> string_truthy (privateKey config)
          \<or> \<not> string_truthy (clobApiKey config) \<or> \<not> string_truthy (clobApiSecret config)
          \<or> \<not> string_truthy (clobApiPassphrase config))"
  then have "\<not> enabled p" using createCopyPlacer_disabled by blast
  then show "place p intent = (Inr (Simulated intent), [])" by (simp add: place_def)
next
  show "\<exists>r. fst (place q intent) = Inr r" by (rule place_never_throws)
next
  assume a: "createCopyPlacer wallet mk_client config = Inr p
      \<and> \<not> copySimulateOnly config \<and> string_truthy (privateKey config)
      \<and> string_truthy (clobApiKey config) \<and> string_truthy (clobApiSecret config)
      \<and> string_truthy (clobApiPassphrase config)"
  then obtain cl where e: "enabled p" "client p = Some cl" "placer_orderType p = copyOrderType config"
    using createCopyPlacer_enabled[of wallet mk_client config p] by blast
  have ot: "toOrderType (copyOrderType config) = toOrderType (placer_orderType p)"
    by (simp add: e(3))
  from place_enabled_cases[OF e(1,2) ot, of intent] e(2)
  show "\<exists>cl. client p = Some cl
            \<and> (place p intent = (Inr (Skipped intent ''amount rounded to zero''), [])
               \<or> place p intent = (Inr (Skipped intent ''price/size rounded to zero''), [])
               \<or> (\<exists>creation created.
                     ((\<exists>a. creation = CreateMarketOrder a \<and> created = createMarketOrder cl a)
                      \<or> (\<exists>a. creation = CreateOrder a \<and> created = createOrder cl a))
                     \<and> ((\<exists>err. created = Inl err
                             \<and> place p intent = (Inr (Skipped intent err), [creation]))
                        \<or> (\<exists>ord err. created = Inr ord
                             \<and> postOrder cl ord (toOrderType (copyOrderType config)) = Inl err
                             \<and> place p intent =
                                 (Inr (Skipped intent err),
                                  [creation, PostOrder ord (toOrderType (copyOrderType config))]))
                        \<or> (\<exists>ord res i. created = Inr ord
                             \<and> postOrder cl ord (toOrderType (copyOrderType config)) = Inr res
                             \<and> orderId res = Some i
                             \<and> place p intent =
                                 (Inr (Posted intent (Inl i)),
                                  [creation, PostOrder ord (toOrderType (copyOrderType config))]))
                        \<or> (\<exists>ord res. created = Inr ord
                             \<and> postOrder cl ord (toOrderType (copyOrderType config)) = Inr res
                             \<and> orderId res = None
                             \<and> place p intent =
                                 (Inr (Posted intent (Inr res)),
                                  [creation, PostOrder ord (toOrderType (copyOrderType config))])))))"
    by (intro exI[of _ cl] conjI) assumption+
qed

theorem place_results_witness:
  "createCopyPlacer ex_wallet (\<lambda>w. ex_client (Inr 1) (Inl ''Error: 400'')) (ex_config True)
     = Inr \<lparr>enabled = False, client = None, placer_orderType = FAK\<rparr>
   \<and> copySimulateOnly (ex_config True)
   \<and> place \<lparr>enabled = False, client = None :: nat clob_client option, placer_orderType = FAK\<rparr>
        ex_intent = (Inr (Simulated ex_intent), [])
   \<and> createCopyPlacer ex_wallet (\<lambda>w. ex_client (Inr 1) (Inl ''Error: 400'')) (ex_config False)
     = Inr \<lparr>enabled = True, client = Some (ex_client (Inr 1) (Inl ''Error: 400'')),
            placer_orderType = FAK\<rparr>
   \<and> \<not> copySimulateOnly (ex_config False) \<and> string_truthy (privateKey (ex_config False))
   \<and> string_truthy (clobApiKey (ex_config False)) \<and> string_truthy (clobApiSecret (ex_config False))
   \<and> string_truthy (clobApiPassphrase (ex_config False))
   \<and> place \<lparr>enabled = True, client = Some (ex_client (Inr 1) (Inl ''Error: 400'')),
            placer_orderType = FAK\<rparr> ex_intent
       = (Inr (Skipped ex_intent ''Error: 400''),
          [CreateMarketOrder \<lparr>mo_tokenID = ''7'', mo_amount = Fin 50, mo_side = Side_BUY,
                              mo_price = Fin (1 / 2)\<rparr>,
           PostOrder 1 FAK])
   \<and> place \<lparr>enabled = True,
            client = Some (ex_client (Inr 1) (Inr \<lparr>orderId = Some ''0xorder'', body = ''ok''\<rparr>)),
            placer_orderType = FAK\<rparr> ex_intent
       = (Inr (Posted ex_intent (Inl ''0xorder'')),
          [CreateMarketOrder \<lparr>mo_tokenID = ''7'', mo_amount = Fin 50, mo_side = Side_BUY,
                              mo_price = Fin (1 / 2)\<rparr>,
           PostOrder 1 FAK])"
proof -
  let ?cl = "ex_client (Inr 1) (Inl ''Error: 400'')"
  have c: "copySimulateOnly (ex_config True)" "\<not> copySimulateOnly (ex_config False)"
    "string_truthy (privateKey (ex_config False))" "string_truthy (clobApiKey (ex_config False))"
    "string_truthy (clobApiSecret (ex_config False))"
    "string_truthy (clobApiPassphrase (ex_config False))"
    by (simp_all add: ex_config_def string_truthy_def)
  have p1: "createCopyPlacer ex_wallet (\<lambda>w. ?cl) (ex_config True)
     = Inr \<lparr>enabled = False, client = None, placer_orderType = FAK\<rparr>"
    by (simp add: ex_placer)
  have p2: "createCopyPlacer ex_wallet (\<lambda>w. ?cl) (ex_config False)
     = Inr \<lparr>enabled = True, client = Some ?cl, placer_orderType = FAK\<rparr>"
    by (simp add: ex_placer)
  from place_results[where wallet = ex_wallet and mk_client = "\<lambda>w. ?cl" and config = "ex_config True"
      and p = "\<lparr>enabled = False, client = None, placer_orderType = FAK\<rparr>" and intent = ex_intent] p1 c(1)
  have s: "place \<lparr>enabled = False, client = None :: nat clob_client option, placer_orderType = FAK\<rparr>
        ex_intent = (Inr (Simulated ex_intent), [])"
    by blast
  show ?thesis using p1 p2 c s ex_place_post_fails ex_place_posted by simp
qed

text \<open>
  C8 as stated fails on the last clause: when the post returns a response that carries no
  order id, the result is \<^verbatim>\<open>posted\<close> with that response in the place of the order id.
\<close>

theorem posted_without_order_id:
  "place \<lparr>enabled = True,
          client = Some (ex_client (Inr 1) (Inr \<lparr>orderId = None, body = ''{}''\<rparr>)),
          placer_orderType = FAK\<rparr> ex_intent
   = (Inr (Posted ex_intent (Inr \<lparr>orderId = None, body = ''{}''\<rparr>)),
      [CreateMarketOrder \<lparr>mo_tokenID = ''7'', mo_amount = Fin 50, mo_side = Side_BUY,
                          mo_price = Fin (1 / 2)\<rparr>,
       PostOrder 1 FAK])"
  by (simp add: place_def place_try_def toOrderType_def Let_def ex_intent_def roundToDecimals_50
      create_and_post_def ex_client_def)

end
